theory Spec2Isabelle
  imports Main "HOL-Library.Word"
begin

section \<open>Data model of package githubapp (app.go)\<close>

text \<open>
  Integers: \<open>int64\<close> identifiers are 64-bit words (only compared and copied, never
  computed with). Go's \<open>int\<close> page numbers are copied and compared with zero only and
  are kept as \<open>int\<close>. A \<open>time.Time\<close> is the number of nanoseconds since Go's zero
  time and a \<open>time.Duration\<close> a number of nanoseconds; \<open>t.Add(d).After(u)\<close> is
  \<open>t + d > u\<close> (the saturation of \<open>Add\<close> at the ends of the representable range is
  outside the model).
\<close>

type_synonym int64 = "64 word"
type_synonym time = int
type_synonym duration = int
type_synonym addr = nat

text \<open>The values of go-github that the package reads, after their nil-safe getters
  (\<open>GetID\<close>, \<open>Account.GetLogin\<close>, \<open>GetName\<close>, \<open>GetToken\<close>): an absent field reads
  as the zero value.\<close>

record ghInstallation =
  GetID :: int64
  GetLogin :: string

record ghRepository =
  GetRepoID :: int64
  GetName :: string

record ListOptions =
  Page :: int
  PerPage :: int

record Response =
  NextPage :: int

type_synonym InstallationPermissions = "(string \<times> string) list"

record InstallationTokenOptions =
  RepositoryIDs :: "int64 list"
  Permissions :: "InstallationPermissions option"

record InstallationToken =
  GetToken :: string

text \<open>Errors. \<open>ErrInstallationNotFound\<close> is the package's own error type (a string);
  \<open>RemoteError\<close> stands for an error value made by a client, \<open>Errorf\<close> for the value
  of \<open>fmt.Errorf\<close>; both are identified by their message.\<close>

datatype error =
    ErrInstallationNotFound string
  | RemoteError string
  | Errorf string

fun Error :: "error \<Rightarrow> string" where
  "Error (ErrInstallationNotFound e) = ''installation not found: '' @ [CHR 0x27] @ e @ [CHR 0x27]"
| "Error (RemoteError m) = m"
| "Error (Errorf m) = m"

text \<open>A call ends by returning an error or by the runtime panic of reading a field
  through a nil pointer.\<close>

datatype fault = Raised error | NilDereference

text \<open>The cached structs. A \<open>repository\<close> is never written after it is made, so the
  slice of pointers \<open>[]*repository\<close> is a list of values. An \<open>installation\<close> is written
  through a pointer (\<open>updateRepositories\<close>), so installations live in a store and
  \<open>App.installs\<close> is a list of addresses.\<close>

record repository =
  RepoID :: int64
  RepoName :: string

record installation =
  ID :: int64
  Owner :: string
  Repositories :: "repository list"
  RepositoriesUpdatedAt :: time

record App =
  installs :: "addr list"
  installsUpdatedAt :: time
  updateInterval :: duration

text \<open>Every remote call and every reading of the clock is an event; the events so far are
  the history. The fields \<open>client\<close> and \<open>installsClientFactory\<close> of \<open>App\<close> and
  \<open>time.Now\<close> are the environment: each answers from the history and the request, which
  covers every deterministic remote side with a state of its own. The listing client that
  the factory makes is identified by the token string it was made from.\<close>

datatype event =
    NowEv time
  | ListInstallationsEv ListOptions "error + ghInstallation list \<times> Response"
  | CreateInstallationTokenEv int64 InstallationTokenOptions "error + InstallationToken"
  | ListReposEv string ListOptions "error + ghRepository list \<times> Response"

record env =
  ListInstallations :: "event list \<Rightarrow> ListOptions \<Rightarrow> error + ghInstallation list \<times> Response"
  ClientCreateInstallationToken ::
    "event list \<Rightarrow> int64 \<Rightarrow> InstallationTokenOptions \<Rightarrow> error + InstallationToken"
  ListRepos :: "event list \<Rightarrow> string \<Rightarrow> ListOptions \<Rightarrow> error + ghRepository list \<times> Response"
  Now :: "event list \<Rightarrow> time"

record state =
  app :: App
  heap :: "addr \<Rightarrow> installation"
  nxt :: addr
  trace :: "event list"

type_synonym 'a result = "((fault + 'a) \<times> state) option"

section \<open>Library functions\<close>

text \<open>\<open>strings.ToLower\<close> on ASCII: the letters A to Z are mapped to a to z, every other
  byte is kept (Go also maps the letters beyond ASCII, which account logins do not
  contain).\<close>

definition toLowerChar :: "char \<Rightarrow> char" where
  "toLowerChar c =
     (let k = (of_char c :: nat) in if 65 \<le> k \<and> k \<le> 90 then char_of (k + 32) else c)"

definition ToLower :: "string \<Rightarrow> string" where
  "ToLower s = map toLowerChar s"

definition time_Now :: "env \<Rightarrow> state \<Rightarrow> time \<times> state" where
  "time_Now E s = (let t = Now E (trace s) in (t, s\<lparr>trace := trace s @ [NowEv t]\<rparr>))"

text \<open>\<open>&installation{...}\<close>: a new object at the next free address.\<close>

definition new_installation :: "installation \<Rightarrow> state \<Rightarrow> addr \<times> state" where
  "new_installation v s = (nxt s, s\<lparr>heap := (heap s)(nxt s := v), nxt := Suc (nxt s)\<rparr>)"

section \<open>updateInstallations\<close>

text \<open>The inner loop \<open>for _, i := range list\<close> of \<open>updateInstallations\<close>.\<close>

text \<open>The composite literal \<open>installation{ID: i.GetID(), Owner:
  strings.ToLower(i.Account.GetLogin())}\<close>; the fields left out are zero.\<close>

definition installationOf :: "ghInstallation \<Rightarrow> installation" where
  "installationOf i =
     \<lparr>ID = GetID i, Owner = ToLower (GetLogin i), Repositories = [], RepositoriesUpdatedAt = 0\<rparr>"

fun appendInstallations :: "ghInstallation list \<Rightarrow> addr list \<Rightarrow> state \<Rightarrow> addr list \<times> state" where
  "appendInstallations [] newInstalls s = (newInstalls, s)"
| "appendInstallations (i # list) newInstalls s =
     (let (p, s1) = new_installation (installationOf i) s
      in appendInstallations list (newInstalls @ [p]) s1)"

text \<open>The loop \<open>for { ... }\<close> of \<open>updateInstallations\<close>; the first argument bounds the
  number of pages fetched, and \<open>None\<close> says that the bound was reached.\<close>

fun listInstallationsLoop ::
  "nat \<Rightarrow> env \<Rightarrow> ListOptions \<Rightarrow> addr list \<Rightarrow> state \<Rightarrow> (addr list) result" where
  "listInstallationsLoop 0 E listOptions newInstalls s = None"
| "listInstallationsLoop (Suc n) E listOptions newInstalls s =
     (let r = ListInstallations E (trace s) listOptions;
          s1 = s\<lparr>trace := trace s @ [ListInstallationsEv listOptions r]\<rparr>
      in case r of
           Inl err \<Rightarrow> Some (Inl (Raised err), s1)
         | Inr (list, response) \<Rightarrow>
             (let (newInstalls', s2) = appendInstallations list newInstalls s1
              in if NextPage response = 0 then Some (Inr newInstalls', s2)
                 else listInstallationsLoop n E (listOptions\<lparr>Page := NextPage response\<rparr>)
                        newInstalls' s2))"

definition updateInstallations :: "nat \<Rightarrow> env \<Rightarrow> state \<Rightarrow> unit result" where
  "updateInstallations n E s =
     (let (now, s1) = time_Now E s
      in if installsUpdatedAt (app s1) + updateInterval (app s1) > now then Some (Inr (), s1)
         else case listInstallationsLoop n E \<lparr>Page = 0, PerPage = 10\<rparr> [] s1 of
                None \<Rightarrow> None
              | Some (Inl err, s2) \<Rightarrow> Some (Inl err, s2)
              | Some (Inr newInstalls, s2) \<Rightarrow>
                  (let (now2, s3) = time_Now E s2
                   in Some (Inr (),
                        s3\<lparr>app := (app s3)\<lparr>installs := newInstalls, installsUpdatedAt := now2\<rparr>\<rparr>)))"

section \<open>getInstallationID\<close>

fun findInstallationID :: "(addr \<Rightarrow> installation) \<Rightarrow> addr list \<Rightarrow> string \<Rightarrow> int64 option" where
  "findInstallationID h [] owner = None"
| "findInstallationID h (i # is) owner =
     (if Owner (h i) = owner then Some (ID (h i)) else findInstallationID h is owner)"

definition getInstallationID :: "nat \<Rightarrow> env \<Rightarrow> string \<Rightarrow> state \<Rightarrow> int64 result" where
  "getInstallationID n E owner s =
     (case updateInstallations n E s of
        None \<Rightarrow> None
      | Some (Inl err, s1) \<Rightarrow> Some (Inl err, s1)
      | Some (Inr _, s1) \<Rightarrow>
          (case findInstallationID (heap s1) (installs (app s1)) owner of
             Some installationID \<Rightarrow> Some (Inr installationID, s1)
           | None \<Rightarrow> Some (Inl (Raised (ErrInstallationNotFound owner)), s1)))"

section \<open>CreateInstallationToken, getRepositoryID, updateRepositories\<close>

text \<open>The scan of \<open>updateRepositories\<close>: the last installation of the owner, or nil.\<close>

fun scanInstallations ::
  "(addr \<Rightarrow> installation) \<Rightarrow> addr list \<Rightarrow> string \<Rightarrow> addr option \<Rightarrow> addr option" where
  "scanInstallations h [] owner i = i"
| "scanInstallations h (ii # is) owner i =
     scanInstallations h is owner (if Owner (h ii) = owner then Some ii else i)"

text \<open>The two nested scans of \<open>getRepositoryID\<close>.\<close>

fun findRepository :: "repository list \<Rightarrow> string \<Rightarrow> int64 option" where
  "findRepository [] repo = None"
| "findRepository (r # rs) repo =
     (if RepoName r = repo then Some (RepoID r) else findRepository rs repo)"

fun findRepositoryID ::
  "(addr \<Rightarrow> installation) \<Rightarrow> addr list \<Rightarrow> string \<Rightarrow> string \<Rightarrow> int64 option" where
  "findRepositoryID h [] owner repo = None"
| "findRepositoryID h (i # is) owner repo =
     (if Owner (h i) = owner
      then (case findRepository (Repositories (h i)) repo of
              Some x \<Rightarrow> Some x
            | None \<Rightarrow> findRepositoryID h is owner repo)
      else findRepositoryID h is owner repo)"

text \<open>The inner loop \<open>for _, r := range list\<close> of \<open>updateRepositories\<close>.\<close>

definition repositoryOf :: "ghRepository \<Rightarrow> repository" where
  "repositoryOf r = \<lparr>RepoID = GetRepoID r, RepoName = GetName r\<rparr>"

definition appendRepositories :: "ghRepository list \<Rightarrow> repository list \<Rightarrow> repository list" where
  "appendRepositories list repositories = repositories @ map repositoryOf list"

text \<open>The loop \<open>for { ... }\<close> of \<open>updateRepositories\<close>, bounded like the one above.\<close>

fun listReposLoop ::
  "nat \<Rightarrow> env \<Rightarrow> string \<Rightarrow> ListOptions \<Rightarrow> repository list \<Rightarrow> state \<Rightarrow> (repository list) result" where
  "listReposLoop 0 E token listOptions repositories s = None"
| "listReposLoop (Suc n) E token listOptions repositories s =
     (let r = ListRepos E (trace s) token listOptions;
          s1 = s\<lparr>trace := trace s @ [ListReposEv token listOptions r]\<rparr>
      in case r of
           Inl err \<Rightarrow> Some (Inl (Raised err), s1)
         | Inr (list, response) \<Rightarrow>
             (let repositories' = appendRepositories list repositories
              in if NextPage response = 0 then Some (Inr repositories', s1)
                 else listReposLoop n E token (listOptions\<lparr>Page := NextPage response\<rparr>)
                        repositories' s1))"

text \<open>The call \<open>a.client.CreateInstallationToken\<close> and the test of its error, at the end of
  \<open>CreateInstallationToken\<close>.\<close>

definition requestToken ::
  "env \<Rightarrow> int64 \<Rightarrow> InstallationTokenOptions \<Rightarrow> state \<Rightarrow> InstallationToken result" where
  "requestToken E installationID tokenOptions s =
     (let r = ClientCreateInstallationToken E (trace s) installationID tokenOptions;
          s1 = s\<lparr>trace := trace s @ [CreateInstallationTokenEv installationID tokenOptions r]\<rparr>
      in case r of
           Inl err \<Rightarrow> Some (Inl (Raised (Errorf (''failed to create token: '' @ Error err))), s1)
         | Inr installationToken \<Rightarrow> Some (Inr installationToken, s1))"

text \<open>The three functions call each other: \<open>CreateInstallationToken\<close> calls
  \<open>getRepositoryID\<close> for each name (\<open>resolveRepositories\<close> is that loop), which calls
  \<open>updateRepositories\<close>, which calls \<open>CreateInstallationToken\<close>. The first argument bounds
  the depth of that last call (\<open>None\<close> when it is exceeded), the second the pages of each
  listing.\<close>

function CreateInstallationToken ::
    "nat \<Rightarrow> nat \<Rightarrow> env \<Rightarrow> string \<Rightarrow> string list \<Rightarrow> InstallationPermissions option \<Rightarrow> state
      \<Rightarrow> InstallationToken result"
  and resolveRepositories ::
    "nat \<Rightarrow> nat \<Rightarrow> env \<Rightarrow> string \<Rightarrow> string list \<Rightarrow> int64 list \<Rightarrow> state \<Rightarrow> (int64 list) result"
  and getRepositoryID ::
    "nat \<Rightarrow> nat \<Rightarrow> env \<Rightarrow> string \<Rightarrow> string \<Rightarrow> state \<Rightarrow> int64 result"
  and updateRepositories ::
    "nat \<Rightarrow> nat \<Rightarrow> env \<Rightarrow> string \<Rightarrow> state \<Rightarrow> unit result"
where
  "CreateInstallationToken d n E owner repos permissions s =
     (case getInstallationID n E owner s of
        None \<Rightarrow> None
      | Some (Inl err, s1) \<Rightarrow> Some (Inl err, s1)
      | Some (Inr installationID, s1) \<Rightarrow>
          (case resolveRepositories d n E owner repos [] s1 of
             None \<Rightarrow> None
           | Some (Inl err, s2) \<Rightarrow> Some (Inl err, s2)
           | Some (Inr ids, s2) \<Rightarrow>
               requestToken E installationID
                 \<lparr>RepositoryIDs = ids, Permissions = permissions\<rparr> s2))"
| "resolveRepositories d n E owner [] ids s = Some (Inr ids, s)"
| "resolveRepositories d n E owner (repo # repos) ids s =
     (case getRepositoryID d n E owner repo s of
        None \<Rightarrow> None
      | Some (Inl err, s1) \<Rightarrow> Some (Inl err, s1)
      | Some (Inr x, s1) \<Rightarrow> resolveRepositories d n E owner repos (ids @ [x]) s1)"
| "getRepositoryID d n E owner repo s =
     (case updateRepositories d n E owner s of
        None \<Rightarrow> None
      | Some (Inl err, s1) \<Rightarrow> Some (Inl err, s1)
      | Some (Inr _, s1) \<Rightarrow>
          (case findRepositoryID (heap s1) (installs (app s1)) owner repo of
             Some x \<Rightarrow> Some (Inr x, s1)
           | None \<Rightarrow> Some (Inl (Raised (ErrInstallationNotFound (owner @ ''/'' @ repo))), s1)))"
| "updateRepositories d n E owner s =
     (case scanInstallations (heap s) (installs (app s)) owner None of
        None \<Rightarrow> Some (Inl NilDereference, s)
      | Some i \<Rightarrow>
          (let (now, s1) = time_Now E s
           in if RepositoriesUpdatedAt (heap s1 i) + updateInterval (app s1) > now
              then Some (Inr (), s1)
              else (case d of
                      0 \<Rightarrow> None
                    | Suc d' \<Rightarrow>
                        (case CreateInstallationToken d' n E owner [] (Some []) s1 of
                           None \<Rightarrow> None
                         | Some (Inl err, s2) \<Rightarrow> Some (Inl err, s2)
                         | Some (Inr token, s2) \<Rightarrow>
                             (case listReposLoop n E (GetToken token)
                                     \<lparr>Page = 0, PerPage = 100\<rparr> [] s2 of
                                None \<Rightarrow> None
                              | Some (Inl err, s3) \<Rightarrow> Some (Inl err, s3)
                              | Some (Inr repositories, s3) \<Rightarrow>
                                  (let (now2, s4) = time_Now E s3
                                   in Some (Inr (),
                                        s4\<lparr>heap := (heap s4)
                                          (i := (heap s4 i)\<lparr>Repositories := repositories,
                                                 RepositoriesUpdatedAt := now2\<rparr>)\<rparr>)))))))"
  by pat_completeness auto
termination
  by (relation "measures
        [\<lambda>x. case x of
                Inl (Inl (d, _)) \<Rightarrow> d
              | Inl (Inr (d, _)) \<Rightarrow> d
              | Inr (Inl (d, _)) \<Rightarrow> d
              | Inr (Inr (d, _)) \<Rightarrow> d,
         \<lambda>x. case x of
                Inl (Inl _) \<Rightarrow> 3
              | Inl (Inr _) \<Rightarrow> 2
              | Inr (Inl _) \<Rightarrow> 1
              | Inr (Inr _) \<Rightarrow> 0,
         \<lambda>x. case x of
                Inl (Inr (d, n, E, owner, repos, _)) \<Rightarrow> length repos
              | _ \<Rightarrow> 0]") auto

section \<open>Histories\<close>

text \<open>The error that a remote call answered with, if it failed; and the error that the
  function making the failed call returns: the error itself after a listing, a new error
  that quotes its message after a token request.\<close>

fun failure :: "event \<Rightarrow> error option" where
  "failure (NowEv t) = None"
| "failure (ListInstallationsEv opts r) = (case r of Inl err \<Rightarrow> Some err | Inr _ \<Rightarrow> None)"
| "failure (CreateInstallationTokenEv i opts r) = (case r of Inl err \<Rightarrow> Some err | Inr _ \<Rightarrow> None)"
| "failure (ListReposEv t opts r) = (case r of Inl err \<Rightarrow> Some err | Inr _ \<Rightarrow> None)"

fun propagated :: "event \<Rightarrow> error option" where
  "propagated (NowEv t) = None"
| "propagated (ListInstallationsEv opts r) = (case r of Inl err \<Rightarrow> Some err | Inr _ \<Rightarrow> None)"
| "propagated (CreateInstallationTokenEv i opts r) =
     (case r of
        Inl err \<Rightarrow> Some (Errorf (''failed to create token: '' @ Error err))
      | Inr _ \<Rightarrow> None)"
| "propagated (ListReposEv t opts r) = (case r of Inl err \<Rightarrow> Some err | Inr _ \<Rightarrow> None)"

text \<open>The calls that list repositories; and the calls that start a listing: those that ask
  for the page 0 (a further call of a listing asks for a \<open>NextPage\<close> other than zero).\<close>

fun listsRepos :: "event \<Rightarrow> bool" where
  "listsRepos (ListReposEv t opts r) = True"
| "listsRepos _ = False"

fun startsInstallationsListing :: "event \<Rightarrow> bool" where
  "startsInstallationsListing (ListInstallationsEv opts r) = (Page opts = 0)"
| "startsInstallationsListing _ = False"

fun startsReposListing :: "event \<Rightarrow> bool" where
  "startsReposListing (ListReposEv token opts r) = (Page opts = 0)"
| "startsReposListing _ = False"

text \<open>A history continues \<open>h\<close> as the environment answers: each event holds what the
  environment returns after the events before it.\<close>

fun answered :: "env \<Rightarrow> event list \<Rightarrow> event list \<Rightarrow> bool" where
  "answered E h [] = True"
| "answered E h (ev # evs) =
     ((case ev of
         NowEv t \<Rightarrow> t = Now E h
       | ListInstallationsEv opts r \<Rightarrow> r = ListInstallations E h opts
       | CreateInstallationTokenEv i opts r \<Rightarrow> r = ClientCreateInstallationToken E h i opts
       | ListReposEv t opts r \<Rightarrow> r = ListRepos E h t opts)
      \<and> answered E (h @ [ev]) evs)"

text \<open>The calls of one complete listing: the first request is \<open>opts\<close>, each further request
  differs from it in \<open>Page\<close> only, which is the \<open>NextPage\<close> of the answer before, every
  answer but the last has a \<open>NextPage\<close> other than zero, and the last has \<open>NextPage\<close> zero.\<close>

fun installationsRun :: "ListOptions \<Rightarrow> event list \<Rightarrow> bool" where
  "installationsRun opts [] = False"
| "installationsRun opts (ev # evs) =
     (case ev of
        ListInstallationsEv opts' (Inr (list, response)) \<Rightarrow>
          opts' = opts \<and>
          (if NextPage response = 0 then evs = []
           else installationsRun (opts\<lparr>Page := NextPage response\<rparr>) evs)
      | _ \<Rightarrow> False)"

fun reposRun :: "string \<Rightarrow> ListOptions \<Rightarrow> event list \<Rightarrow> bool" where
  "reposRun token opts [] = False"
| "reposRun token opts (ev # evs) =
     (case ev of
        ListReposEv token' opts' (Inr (list, response)) \<Rightarrow>
          token' = token \<and> opts' = opts \<and>
          (if NextPage response = 0 then evs = []
           else reposRun token (opts\<lparr>Page := NextPage response\<rparr>) evs)
      | _ \<Rightarrow> False)"

text \<open>The pages that a history holds, one list for each call that succeeded, and their
  items in the order of the calls.\<close>

fun installationPages :: "event list \<Rightarrow> ghInstallation list list" where
  "installationPages [] = []"
| "installationPages (ev # evs) =
     (case ev of
        ListInstallationsEv opts (Inr (list, response)) \<Rightarrow> list # installationPages evs
      | _ \<Rightarrow> installationPages evs)"

fun repositoryPages :: "event list \<Rightarrow> ghRepository list list" where
  "repositoryPages [] = []"
| "repositoryPages (ev # evs) =
     (case ev of
        ListReposEv token opts (Inr (list, response)) \<Rightarrow> list # repositoryPages evs
      | _ \<Rightarrow> repositoryPages evs)"

fun fetchedInstallations :: "event list \<Rightarrow> ghInstallation list" where
  "fetchedInstallations [] = []"
| "fetchedInstallations (ev # evs) =
     (case ev of
        ListInstallationsEv opts (Inr (list, response)) \<Rightarrow> list @ fetchedInstallations evs
      | _ \<Rightarrow> fetchedInstallations evs)"

fun fetchedRepositories :: "event list \<Rightarrow> ghRepository list" where
  "fetchedRepositories [] = []"
| "fetchedRepositories (ev # evs) =
     (case ev of
        ListReposEv token opts (Inr (list, response)) \<Rightarrow> list @ fetchedRepositories evs
      | _ \<Rightarrow> fetchedRepositories evs)"

section \<open>States\<close>

text \<open>The state after a reading of the clock, and the two staleness tests (the negations of
  the conditions under which \<open>updateInstallations\<close> and \<open>updateRepositories\<close> return at
  once).\<close>

definition tick :: "env \<Rightarrow> state \<Rightarrow> state" where
  "tick E s = s\<lparr>trace := trace s @ [NowEv (Now E (trace s))]\<rparr>"

definition stale :: "env \<Rightarrow> state \<Rightarrow> bool" where
  "stale E s \<longleftrightarrow> \<not> installsUpdatedAt (app s) + updateInterval (app s) > Now E (trace s)"

definition staleRepositories :: "env \<Rightarrow> state \<Rightarrow> addr \<Rightarrow> bool" where
  "staleRepositories E s i \<longleftrightarrow>
     \<not> RepositoriesUpdatedAt (heap s i) + updateInterval (app s) > Now E (trace s)"

text \<open>Every cached installation is an allocated object.\<close>

definition wellFormed :: "state \<Rightarrow> bool" where
  "wellFormed s \<longleftrightarrow> (\<forall>p\<in>set (installs (app s)). p < nxt s)"

text \<open>No remote call of the events failed, or only the last one did and the result is the
  error propagated from it.\<close>

definition faithful :: "event list \<Rightarrow> fault + 'a \<Rightarrow> bool" where
  "faithful evs r \<longleftrightarrow>
     (\<forall>ev\<in>set evs. failure ev = None) \<or>
     (\<exists>evs' ev e. evs = evs' @ [ev] \<and> (\<forall>ev'\<in>set evs'. failure ev' = None)
        \<and> propagated ev = Some e \<and> r = Inl (Raised e))"

text \<open>What every call does to the state: the history grows by events that the environment
  answered, objects are only added, the interval is kept.\<close>

definition steps :: "env \<Rightarrow> state \<Rightarrow> state \<Rightarrow> event list \<Rightarrow> bool" where
  "steps E s s' evs \<longleftrightarrow>
     trace s' = trace s @ evs \<and> answered E (trace s) evs \<and> nxt s \<le> nxt s'
     \<and> updateInterval (app s') = updateInterval (app s)
     \<and> (wellFormed s \<longrightarrow> wellFormed s')"

text \<open>A call that moreover writes no allocated installation and lists no repositories.\<close>

definition pureSteps :: "env \<Rightarrow> state \<Rightarrow> state \<Rightarrow> event list \<Rightarrow> bool" where
  "pureSteps E s s' evs \<longleftrightarrow>
     steps E s s' evs \<and> (\<forall>p<nxt s. heap s' p = heap s p) \<and> (\<forall>ev\<in>set evs. \<not> listsRepos ev)"

section \<open>The resolution of the names, as specified\<close>

text \<open>The resolution of the names as the specification words it: each name in turn is
  resolved by \<open>getRepositoryID\<close>, the first error ends the resolution, and the identities
  are returned in the order of the names, one for each name.\<close>

fun resolveEach ::
  "nat \<Rightarrow> nat \<Rightarrow> env \<Rightarrow> string \<Rightarrow> string list \<Rightarrow> state \<Rightarrow> (int64 list) result" where
  "resolveEach d n E owner [] s = Some (Inr [], s)"
| "resolveEach d n E owner (repo # repos) s =
     (case getRepositoryID d n E owner repo s of
        None \<Rightarrow> None
      | Some (Inl err, s1) \<Rightarrow> Some (Inl err, s1)
      | Some (Inr x, s1) \<Rightarrow>
          (case resolveEach d n E owner repos s1 of
             None \<Rightarrow> None
           | Some (Inl err, s2) \<Rightarrow> Some (Inl err, s2)
           | Some (Inr xs, s2) \<Rightarrow> Some (Inr (x # xs), s2)))"

section \<open>Scenarios\<close>

text \<open>The state after \<open>New(client)\<close>: no installation, zero time, an interval of one
  minute. A state with a fresh cache: installation 42 of \<open>acme\<close> with the repositories
  \<open>repoA\<close>, \<open>repoB\<close>, \<open>repoC\<close>; the same cache last refreshed at the zero time; and the
  same with a fresh list of installations and a list of repositories last refreshed at the
  zero time.\<close>

definition minute :: duration where
  "minute = 60000000000"

definition zeroInstallation :: installation where
  "zeroInstallation = \<lparr>ID = 0, Owner = [], Repositories = [], RepositoriesUpdatedAt = 0\<rparr>"

definition newState :: state where
  "newState =
     \<lparr>app = \<lparr>installs = [], installsUpdatedAt = 0, updateInterval = minute\<rparr>,
      heap = (\<lambda>p. zeroInstallation), nxt = 0, trace = []\<rparr>"

definition cachedState :: state where
  "cachedState =
     \<lparr>app = \<lparr>installs = [0], installsUpdatedAt = 100 * minute, updateInterval = minute\<rparr>,
      heap = (\<lambda>p. zeroInstallation)
        (0 := \<lparr>ID = 42, Owner = ''acme'',
               Repositories = [\<lparr>RepoID = 1, RepoName = ''repoA''\<rparr>,
                               \<lparr>RepoID = 2, RepoName = ''repoB''\<rparr>,
                               \<lparr>RepoID = 3, RepoName = ''repoC''\<rparr>],
               RepositoriesUpdatedAt = 100 * minute\<rparr>),
      nxt = 1, trace = []\<rparr>"

definition expiredState :: state where
  "expiredState =
     \<lparr>app = \<lparr>installs = [0], installsUpdatedAt = 0, updateInterval = minute\<rparr>,
      heap = (\<lambda>p. zeroInstallation)
        (0 := \<lparr>ID = 42, Owner = ''acme'',
               Repositories = [\<lparr>RepoID = 1, RepoName = ''repoA''\<rparr>,
                               \<lparr>RepoID = 2, RepoName = ''repoB''\<rparr>,
                               \<lparr>RepoID = 3, RepoName = ''repoC''\<rparr>],
               RepositoriesUpdatedAt = 0\<rparr>),
      nxt = 1, trace = []\<rparr>"

definition reposExpiredState :: state where
  "reposExpiredState =
     \<lparr>app = \<lparr>installs = [0], installsUpdatedAt = 100 * minute, updateInterval = minute\<rparr>,
      heap = (\<lambda>p. zeroInstallation)
        (0 := \<lparr>ID = 42, Owner = ''acme'',
               Repositories = [\<lparr>RepoID = 1, RepoName = ''repoA''\<rparr>,
                               \<lparr>RepoID = 2, RepoName = ''repoB''\<rparr>,
                               \<lparr>RepoID = 3, RepoName = ''repoC''\<rparr>],
               RepositoriesUpdatedAt = 0\<rparr>),
      nxt = 1, trace = []\<rparr>"

text \<open>The environment of the end-to-end scenario: one page with the installation 7 of
  \<open>Acme\<close>, one page with the repository 100 named \<open>infra\<close>, a clock that advances by one
  nanosecond with each event; the same with a clock that advances by two minutes with each
  event; and the same with a listing of installations that never ends.\<close>

definition scenarioEnv :: env where
  "scenarioEnv =
     \<lparr>ListInstallations = (\<lambda>h opts. Inr ([\<lparr>GetID = 7, GetLogin = ''Acme''\<rparr>], \<lparr>NextPage = 0\<rparr>)),
      ClientCreateInstallationToken = (\<lambda>h i opts. Inr \<lparr>GetToken = ''v1.token''\<rparr>),
      ListRepos = (\<lambda>h token opts.
         Inr ([\<lparr>GetRepoID = 100, GetName = ''infra''\<rparr>], \<lparr>NextPage = 0\<rparr>)),
      Now = (\<lambda>h. 100 * minute + int (length h))\<rparr>"

definition slowClockEnv :: env where
  "slowClockEnv = scenarioEnv\<lparr>Now := (\<lambda>h. 100 * minute + 2 * minute * int (length h))\<rparr>"

definition endlessEnv :: env where
  "endlessEnv = scenarioEnv\<lparr>ListInstallations := (\<lambda>h opts. Inr ([], \<lparr>NextPage = 1\<rparr>))\<rparr>"

text \<open>An environment whose second page of installations fails and whose token requests
  fail; one with two pages of installations and of repositories; and the latter with a
  second page of repositories that fails.\<close>

definition failingEnv :: env where
  "failingEnv =
     \<lparr>ListInstallations = (\<lambda>h opts.
         if Page opts = 0 then Inr ([\<lparr>GetID = 7, GetLogin = ''Acme''\<rparr>], \<lparr>NextPage = 2\<rparr>)
         else Inl (RemoteError ''boom'')),
      ClientCreateInstallationToken = (\<lambda>h i opts. Inl (RemoteError ''denied'')),
      ListRepos = (\<lambda>h token opts. Inl (RemoteError ''down'')),
      Now = (\<lambda>h. 100 * minute + int (length h))\<rparr>"

definition pagedEnv :: env where
  "pagedEnv =
     \<lparr>ListInstallations = (\<lambda>h opts.
         if Page opts = 0
         then Inr ([\<lparr>GetID = 7, GetLogin = ''Acme''\<rparr>, \<lparr>GetID = 8, GetLogin = ''Beta''\<rparr>],
                   \<lparr>NextPage = 2\<rparr>)
         else Inr ([\<lparr>GetID = 9, GetLogin = ''Gamma''\<rparr>], \<lparr>NextPage = 0\<rparr>)),
      ClientCreateInstallationToken = (\<lambda>h i opts. Inr \<lparr>GetToken = ''v1.token''\<rparr>),
      ListRepos = (\<lambda>h token opts.
         if Page opts = 0
         then Inr ([\<lparr>GetRepoID = 100, GetName = ''infra''\<rparr>,
                    \<lparr>GetRepoID = 101, GetName = ''web''\<rparr>], \<lparr>NextPage = 3\<rparr>)
         else Inr ([\<lparr>GetRepoID = 102, GetName = ''docs''\<rparr>], \<lparr>NextPage = 0\<rparr>)),
      Now = (\<lambda>h. 100 * minute + int (length h))\<rparr>"

definition brokenEnv :: env where
  "brokenEnv =
     pagedEnv\<lparr>ListRepos := (\<lambda>h token opts.
         if Page opts = 0
         then Inr ([\<lparr>GetRepoID = 100, GetName = ''infra''\<rparr>,
                    \<lparr>GetRepoID = 101, GetName = ''web''\<rparr>], \<lparr>NextPage = 3\<rparr>)
         else Inl (RemoteError ''down''))\<rparr>"

text \<open>The recursive equations are unfolded by hand.\<close>

declare CreateInstallationToken.simps [simp del]
declare getRepositoryID.simps [simp del]
declare updateRepositories.simps [simp del]
declare listInstallationsLoop.simps [simp del]
declare listReposLoop.simps [simp del]

section \<open>Basic facts\<close>

lemma time_Now_simps [simp]:
  "fst (time_Now E s) = Now E (trace s)"
  "app (snd (time_Now E s)) = app s"
  "heap (snd (time_Now E s)) = heap s"
  "nxt (snd (time_Now E s)) = nxt s"
  "trace (snd (time_Now E s)) = trace s @ [NowEv (Now E (trace s))]"
  by (simp_all add: time_Now_def Let_def)

lemma appendInstallations_app [simp]: "app (snd (appendInstallations l acc s)) = app s"
  by (induction l arbitrary: acc s) (simp_all add: new_installation_def)

lemma appendInstallations_trace [simp]: "trace (snd (appendInstallations l acc s)) = trace s"
  by (induction l arbitrary: acc s) (simp_all add: new_installation_def)

lemma appendInstallations_nxt [simp]: "nxt (snd (appendInstallations l acc s)) = nxt s + length l"
  by (induction l arbitrary: acc s) (simp_all add: new_installation_def)

lemma appendInstallations_fst [simp]:
  "fst (appendInstallations l acc s) = acc @ [nxt s ..< nxt s + length l]"
proof (induction l arbitrary: acc s)
  case Nil
  then show ?case by simp
next
  case (Cons i l)
  have "[nxt s ..< nxt s + Suc (length l)] = nxt s # [Suc (nxt s) ..< Suc (nxt s) + length l]"
    by (simp add: upt_rec)
  with Cons show ?case by (simp add: new_installation_def)
qed

lemma appendInstallations_heap_old [simp]:
  "p < nxt s \<Longrightarrow> heap (snd (appendInstallations l acc s)) p = heap s p"
  by (induction l arbitrary: acc s) (simp_all add: new_installation_def)

lemma appendInstallations_heap_new [simp]:
  "j < length l \<Longrightarrow> heap (snd (appendInstallations l acc s)) (nxt s + j) = installationOf (l ! j)"
proof (induction l arbitrary: acc s j)
  case Nil
  then show ?case by simp
next
  case (Cons i l)
  show ?case
  proof (cases j)
    case 0
    then show ?thesis by (simp add: new_installation_def)
  next
    case (Suc k)
    with Cons.prems have "k < length l" by simp
    from Cons.IH[OF this, of "acc @ [nxt s]" "s\<lparr>heap := (heap s)(nxt s := installationOf i), nxt := Suc (nxt s)\<rparr>"]
    show ?thesis using Suc by (simp add: new_installation_def)
  qed
qed

lemma appendInstallations_map_heap:
  "map (heap (snd (appendInstallations l acc s))) [nxt s ..< nxt s + length l] = map installationOf l"
  by (rule nth_equalityI) simp_all

lemma answered_append:
  "answered E h (xs @ ys) \<longleftrightarrow> answered E h xs \<and> answered E (h @ xs) ys"
  by (induction xs arbitrary: h) auto

lemma fetchedInstallations_append [simp]:
  "fetchedInstallations (xs @ ys) = fetchedInstallations xs @ fetchedInstallations ys"
  by (induction xs) (auto split: event.splits sum.splits prod.splits)

lemma listInstallationsLoop_Inr:
  "listInstallationsLoop n E opts acc s = Some (Inr res, s') \<Longrightarrow>
   \<exists>evs. trace s' = trace s @ evs \<and> installationsRun opts evs \<and> answered E (trace s) evs
     \<and> length evs \<le> n \<and> (\<forall>ev\<in>set evs. failure ev = None)
     \<and> app s' = app s \<and> nxt s' = nxt s + length (fetchedInstallations evs)
     \<and> res = acc @ [nxt s ..< nxt s']
     \<and> (\<forall>p<nxt s. heap s' p = heap s p)
     \<and> map (heap s') [nxt s ..< nxt s'] = map installationOf (fetchedInstallations evs)"
proof (induction n arbitrary: opts acc s)
  case 0
  then show ?case by (simp add: listInstallationsLoop.simps)
next
  case (Suc n)
  let ?r = "ListInstallations E (trace s) opts"
  let ?ev = "ListInstallationsEv opts ?r"
  let ?s1 = "s\<lparr>trace := trace s @ [?ev]\<rparr>"
  from Suc.prems obtain list response where r: "?r = Inr (list, response)"
    by (auto simp: listInstallationsLoop.simps Let_def split: sum.splits)
  let ?s2 = "snd (appendInstallations list acc ?s1)"
  let ?acc2 = "acc @ [nxt s ..< nxt s + length list]"
  have ap: "appendInstallations list acc ?s1 = (?acc2, ?s2)"
    by (simp add: prod_eq_iff)
  show ?case
  proof (cases "NextPage response = 0")
    case True
    with Suc.prems r have res: "res = ?acc2" and s': "s' = ?s2"
      by (auto simp: listInstallationsLoop.simps Let_def case_prod_beta)
    have "map (heap ?s2) [nxt ?s1 ..< nxt ?s1 + length list] = map installationOf list"
      by (rule appendInstallations_map_heap)
    then show ?thesis using True r res s'
      by (intro exI[of _ "[?ev]"]) simp
  next
    case False
    with Suc.prems r
    have rec: "listInstallationsLoop n E (opts\<lparr>Page := NextPage response\<rparr>) ?acc2 ?s2 = Some (Inr res, s')"
      by (auto simp: listInstallationsLoop.simps Let_def case_prod_beta)
    from Suc.IH[OF rec] obtain evs where
      tr: "trace s' = trace ?s2 @ evs" and run: "installationsRun (opts\<lparr>Page := NextPage response\<rparr>) evs"
      and ans: "answered E (trace ?s2) evs" and len: "length evs \<le> n"
      and nf: "\<forall>ev\<in>set evs. failure ev = None"
      and app: "app s' = app ?s2" and nx: "nxt s' = nxt ?s2 + length (fetchedInstallations evs)"
      and res: "res = ?acc2 @ [nxt ?s2 ..< nxt s']"
      and old: "\<forall>p<nxt ?s2. heap s' p = heap ?s2 p"
      and new: "map (heap s') [nxt ?s2 ..< nxt s'] = map installationOf (fetchedInstallations evs)"
      by blast
    have n2: "nxt ?s2 = nxt s + length list" by simp
    have split: "[nxt s ..< nxt s'] = [nxt s ..< nxt s + length list] @ [nxt s + length list ..< nxt s']"
      using nx n2 by (metis le_add1 upt_add_eq_append)
    have m1: "map (heap s') [nxt s ..< nxt s + length list] = map installationOf list"
    proof (rule nth_equalityI)
      show "length (map (heap s') [nxt s ..< nxt s + length list]) = length (map installationOf list)" by simp
    next
      fix j assume "j < length (map (heap s') [nxt s ..< nxt s + length list])"
      then have j: "j < length list" by simp
      then have "heap s' (nxt s + j) = heap ?s2 (nxt s + j)" using old n2 by simp
      also have "\<dots> = installationOf (list ! j)"
        using appendInstallations_heap_new[OF j, of acc ?s1] by simp
      finally show "map (heap s') [nxt s ..< nxt s + length list] ! j = map installationOf list ! j"
        using j by simp
    qed
    show ?thesis
      using False r tr run ans len nf app nx res old new n2 split m1
      by (intro exI[of _ "?ev # evs"]) (simp add: add.assoc)
  qed
qed

lemma fetchedRepositories_append [simp]:
  "fetchedRepositories (xs @ ys) = fetchedRepositories xs @ fetchedRepositories ys"
  by (induction xs) (auto split: event.splits sum.splits prod.splits)

lemma listInstallationsLoop_Inl:
  "listInstallationsLoop n E opts acc s = Some (Inl f, s') \<Longrightarrow>
   \<exists>evs opts' err. trace s' = trace s @ evs @ [ListInstallationsEv opts' (Inl err)]
     \<and> f = Raised err \<and> answered E (trace s) (evs @ [ListInstallationsEv opts' (Inl err)])
     \<and> (\<forall>ev\<in>set evs. failure ev = None) \<and> length evs < n
     \<and> app s' = app s \<and> nxt s \<le> nxt s' \<and> (\<forall>p<nxt s. heap s' p = heap s p)"
proof (induction n arbitrary: opts acc s)
  case 0
  then show ?case by (simp add: listInstallationsLoop.simps)
next
  case (Suc n)
  let ?r = "ListInstallations E (trace s) opts"
  let ?ev = "ListInstallationsEv opts ?r"
  let ?s1 = "s\<lparr>trace := trace s @ [?ev]\<rparr>"
  show ?case
  proof (cases ?r)
    case (Inl err)
    with Suc.prems have "f = Raised err" "s' = ?s1"
      by (auto simp: listInstallationsLoop.simps Let_def)
    then show ?thesis using Inl
      by (intro exI[of _ "[]"] exI[of _ opts] exI[of _ err]) simp
  next
    case (Inr pr)
    obtain list response where pr: "pr = (list, response)" by (cases pr)
    let ?s2 = "snd (appendInstallations list acc ?s1)"
    let ?acc2 = "acc @ [nxt s ..< nxt s + length list]"
    from Suc.prems Inr pr have nz: "NextPage response \<noteq> 0"
      and rec: "listInstallationsLoop n E (opts\<lparr>Page := NextPage response\<rparr>) ?acc2 ?s2 = Some (Inl f, s')"
      by (auto simp: listInstallationsLoop.simps Let_def case_prod_beta split: if_splits)
    from Suc.IH[OF rec] obtain evs opts' err where
      tr: "trace s' = trace ?s2 @ evs @ [ListInstallationsEv opts' (Inl err)]"
      and f: "f = Raised err"
      and ans: "answered E (trace ?s2) (evs @ [ListInstallationsEv opts' (Inl err)])"
      and nf: "\<forall>ev\<in>set evs. failure ev = None" and len: "length evs < n"
      and app: "app s' = app ?s2" and nx: "nxt ?s2 \<le> nxt s'"
      and old: "\<forall>p<nxt ?s2. heap s' p = heap ?s2 p"
      by blast
    show ?thesis
      using Inr pr tr f ans nf len app nx old
      by (intro exI[of _ "?ev # evs"] exI[of _ opts'] exI[of _ err]) simp
  qed
qed

lemma listInstallationsLoop_total:
  "installationsRun opts evs \<Longrightarrow> answered E (trace s) evs \<Longrightarrow> length evs \<le> n \<Longrightarrow>
   \<exists>res s'. listInstallationsLoop n E opts acc s = Some (Inr res, s') \<and> trace s' = trace s @ evs"
proof (induction evs arbitrary: n opts acc s)
  case Nil
  then show ?case by simp
next
  case (Cons ev evs)
  from Cons.prems(3) obtain m where n: "n = Suc m" and m: "length evs \<le> m"
    by (cases n) auto
  from Cons.prems(1) obtain list response where
    ev: "ev = ListInstallationsEv opts (Inr (list, response))"
    and rest: "if NextPage response = 0 then evs = []
               else installationsRun (opts\<lparr>Page := NextPage response\<rparr>) evs"
    by (auto split: event.splits sum.splits prod.splits)
  from Cons.prems(2) ev have r: "ListInstallations E (trace s) opts = Inr (list, response)"
    and ans: "answered E (trace s @ [ev]) evs" by auto
  let ?s1 = "s\<lparr>trace := trace s @ [ev]\<rparr>"
  let ?s2 = "snd (appendInstallations list acc ?s1)"
  let ?acc2 = "acc @ [nxt s ..< nxt s + length list]"
  show ?case
  proof (cases "NextPage response = 0")
    case True
    with rest r ev n show ?thesis
      by (simp add: listInstallationsLoop.simps Let_def case_prod_beta)
  next
    case False
    with rest have run: "installationsRun (opts\<lparr>Page := NextPage response\<rparr>) evs" by simp
    have ans2: "answered E (trace ?s2) evs" using ans by simp
    from Cons.IH[OF run ans2 m, of ?acc2] obtain res s' where
      "listInstallationsLoop m E (opts\<lparr>Page := NextPage response\<rparr>) ?acc2 ?s2 = Some (Inr res, s')"
      "trace s' = trace ?s2 @ evs" by blast
    with False r ev n show ?thesis
      by (simp add: listInstallationsLoop.simps Let_def case_prod_beta)
  qed
qed

lemma listReposLoop_Inr:
  "listReposLoop n E token opts acc s = Some (Inr res, s') \<Longrightarrow>
   \<exists>evs. s' = s\<lparr>trace := trace s @ evs\<rparr> \<and> reposRun token opts evs \<and> answered E (trace s) evs
     \<and> length evs \<le> n \<and> (\<forall>ev\<in>set evs. failure ev = None)
     \<and> res = acc @ map repositoryOf (fetchedRepositories evs)"
proof (induction n arbitrary: opts acc s)
  case 0
  then show ?case by (simp add: listReposLoop.simps)
next
  case (Suc n)
  let ?r = "ListRepos E (trace s) token opts"
  let ?ev = "ListReposEv token opts ?r"
  let ?s1 = "s\<lparr>trace := trace s @ [?ev]\<rparr>"
  from Suc.prems obtain list response where r: "?r = Inr (list, response)"
    by (auto simp: listReposLoop.simps Let_def split: sum.splits)
  show ?case
  proof (cases "NextPage response = 0")
    case True
    with Suc.prems r have "res = appendRepositories list acc" "s' = ?s1"
      by (auto simp: listReposLoop.simps Let_def)
    then show ?thesis using True r
      by (intro exI[of _ "[?ev]"]) (simp add: appendRepositories_def)
  next
    case False
    with Suc.prems r
    have rec: "listReposLoop n E token (opts\<lparr>Page := NextPage response\<rparr>)
                 (appendRepositories list acc) ?s1 = Some (Inr res, s')"
      by (auto simp: listReposLoop.simps Let_def)
    from Suc.IH[OF rec] obtain evs where
      "s' = ?s1\<lparr>trace := trace ?s1 @ evs\<rparr>"
      "reposRun token (opts\<lparr>Page := NextPage response\<rparr>) evs"
      "answered E (trace ?s1) evs" "length evs \<le> n" "\<forall>ev\<in>set evs. failure ev = None"
      "res = appendRepositories list acc @ map repositoryOf (fetchedRepositories evs)"
      by blast
    then show ?thesis using False r
      by (intro exI[of _ "?ev # evs"]) (simp add: appendRepositories_def)
  qed
qed

lemma listReposLoop_Inl:
  "listReposLoop n E token opts acc s = Some (Inl f, s') \<Longrightarrow>
   \<exists>evs opts' err. s' = s\<lparr>trace := trace s @ evs @ [ListReposEv token opts' (Inl err)]\<rparr>
     \<and> f = Raised err \<and> answered E (trace s) (evs @ [ListReposEv token opts' (Inl err)])
     \<and> (\<forall>ev\<in>set evs. failure ev = None) \<and> length evs < n"
proof (induction n arbitrary: opts acc s)
  case 0
  then show ?case by (simp add: listReposLoop.simps)
next
  case (Suc n)
  let ?r = "ListRepos E (trace s) token opts"
  let ?ev = "ListReposEv token opts ?r"
  let ?s1 = "s\<lparr>trace := trace s @ [?ev]\<rparr>"
  show ?case
  proof (cases ?r)
    case (Inl err)
    with Suc.prems have "f = Raised err" "s' = ?s1"
      by (auto simp: listReposLoop.simps Let_def)
    then show ?thesis using Inl
      by (intro exI[of _ "[]"] exI[of _ opts] exI[of _ err]) simp
  next
    case (Inr pr)
    obtain list response where pr: "pr = (list, response)" by (cases pr)
    from Suc.prems Inr pr have nz: "NextPage response \<noteq> 0"
      and rec: "listReposLoop n E token (opts\<lparr>Page := NextPage response\<rparr>)
                  (appendRepositories list acc) ?s1 = Some (Inl f, s')"
      by (auto simp: listReposLoop.simps Let_def split: if_splits)
    from Suc.IH[OF rec] obtain evs opts' err where
      "s' = ?s1\<lparr>trace := trace ?s1 @ evs @ [ListReposEv token opts' (Inl err)]\<rparr>"
      "f = Raised err"
      "answered E (trace ?s1) (evs @ [ListReposEv token opts' (Inl err)])"
      "\<forall>ev\<in>set evs. failure ev = None" "length evs < n"
      by blast
    then show ?thesis using Inr pr
      by (intro exI[of _ "?ev # evs"] exI[of _ opts'] exI[of _ err]) simp
  qed
qed

lemma listReposLoop_total:
  "reposRun token opts evs \<Longrightarrow> answered E (trace s) evs \<Longrightarrow> length evs \<le> n \<Longrightarrow>
   \<exists>res. listReposLoop n E token opts acc s = Some (Inr res, s\<lparr>trace := trace s @ evs\<rparr>)"
proof (induction evs arbitrary: n opts acc s)
  case Nil
  then show ?case by simp
next
  case (Cons ev evs)
  from Cons.prems(3) obtain m where n: "n = Suc m" and m: "length evs \<le> m"
    by (cases n) auto
  from Cons.prems(1) obtain list response where
    ev: "ev = ListReposEv token opts (Inr (list, response))"
    and rest: "if NextPage response = 0 then evs = []
               else reposRun token (opts\<lparr>Page := NextPage response\<rparr>) evs"
    by (auto split: event.splits sum.splits prod.splits)
  from Cons.prems(2) ev have r: "ListRepos E (trace s) token opts = Inr (list, response)"
    and ans: "answered E (trace s @ [ev]) evs" by auto
  let ?s1 = "s\<lparr>trace := trace s @ [ev]\<rparr>"
  show ?case
  proof (cases "NextPage response = 0")
    case True
    with rest r ev n show ?thesis
      by (simp add: listReposLoop.simps Let_def)
  next
    case False
    with rest have run: "reposRun token (opts\<lparr>Page := NextPage response\<rparr>) evs" by simp
    have ans2: "answered E (trace ?s1) evs" using ans by simp
    from Cons.IH[OF run ans2 m, of "appendRepositories list acc"] obtain res where
      "listReposLoop m E token (opts\<lparr>Page := NextPage response\<rparr>) (appendRepositories list acc) ?s1
         = Some (Inr res, ?s1\<lparr>trace := trace ?s1 @ evs\<rparr>)" by blast
    with False r ev n show ?thesis
      by (simp add: listReposLoop.simps Let_def)
  qed
qed

lemma time_Now_eq: "time_Now E s = (Now E (trace s), tick E s)"
  by (simp add: time_Now_def tick_def Let_def)

lemma tick_simps [simp]:
  "app (tick E s) = app s" "heap (tick E s) = heap s" "nxt (tick E s) = nxt s"
  "trace (tick E s) = trace s @ [NowEv (Now E (trace s))]"
  by (simp_all add: tick_def)

lemma updateInstallations_fresh:
  "\<not> stale E s \<Longrightarrow> updateInstallations n E s = Some (Inr (), tick E s)"
  by (simp add: updateInstallations_def time_Now_eq stale_def)

lemma updateInstallations_stale:
  "stale E s \<Longrightarrow> updateInstallations n E s =
     (case listInstallationsLoop n E \<lparr>Page = 0, PerPage = 10\<rparr> [] (tick E s) of
        None \<Rightarrow> None
      | Some (Inl err, s2) \<Rightarrow> Some (Inl err, s2)
      | Some (Inr newInstalls, s2) \<Rightarrow>
          Some (Inr (), (tick E s2)\<lparr>app := (app s2)\<lparr>installs := newInstalls,
                                        installsUpdatedAt := Now E (trace s2)\<rparr>\<rparr>))"
  by (simp add: updateInstallations_def time_Now_eq stale_def split: option.splits sum.splits prod.splits)

lemma updateInstallations_cases:
  assumes "updateInstallations n E s = Some (r, s')"
  obtains
    (fresh) "\<not> stale E s" "r = Inr ()" "s' = tick E s"
  | (failed) f where "stale E s" "r = Inl f"
      "listInstallationsLoop n E \<lparr>Page = 0, PerPage = 10\<rparr> [] (tick E s) = Some (Inl f, s')"
  | (refreshed) newInstalls s2 where "stale E s" "r = Inr ()"
      "listInstallationsLoop n E \<lparr>Page = 0, PerPage = 10\<rparr> [] (tick E s) = Some (Inr newInstalls, s2)"
      "s' = (tick E s2)\<lparr>app := (app s2)\<lparr>installs := newInstalls,
                                 installsUpdatedAt := Now E (trace s2)\<rparr>\<rparr>"
proof (cases "stale E s")
  case False
  with assms fresh show ?thesis by (simp add: updateInstallations_fresh)
next
  case True
  with assms failed refreshed show ?thesis
    by (auto simp: updateInstallations_stale split: option.splits sum.splits prod.splits)
qed

lemma getInstallationID_cases:
  assumes "getInstallationID n E owner s = Some (r, s')"
  obtains
    (failed) f where "updateInstallations n E s = Some (Inl f, s')" "r = Inl f"
  | (found) x where "updateInstallations n E s = Some (Inr (), s')"
      "findInstallationID (heap s') (installs (app s')) owner = Some x" "r = Inr x"
  | (notfound) "updateInstallations n E s = Some (Inr (), s')"
      "findInstallationID (heap s') (installs (app s')) owner = None"
      "r = Inl (Raised (ErrInstallationNotFound owner))"
  using assms
  by (auto simp: getInstallationID_def split: option.splits sum.splits prod.splits)

lemma requestToken_eq:
  "requestToken E i opts s =
     Some (case ClientCreateInstallationToken E (trace s) i opts of
             Inl err \<Rightarrow> Inl (Raised (Errorf (''failed to create token: '' @ Error err)))
           | Inr t \<Rightarrow> Inr t,
           s\<lparr>trace := trace s @ [CreateInstallationTokenEv i opts
                                   (ClientCreateInstallationToken E (trace s) i opts)]\<rparr>)"
  by (simp add: requestToken_def Let_def split: sum.splits)

lemma CreateInstallationToken_nil:
  "CreateInstallationToken d n E owner [] permissions s =
     (case getInstallationID n E owner s of
        None \<Rightarrow> None
      | Some (Inl err, s1) \<Rightarrow> Some (Inl err, s1)
      | Some (Inr installationID, s1) \<Rightarrow>
          requestToken E installationID \<lparr>RepositoryIDs = [], Permissions = permissions\<rparr> s1)"
  by (simp add: CreateInstallationToken.simps split: option.splits sum.splits prod.splits)

lemma CreateInstallationToken_nil_cases:
  assumes "CreateInstallationToken d n E owner [] permissions s = Some (r, s')"
  obtains
    (failed) f where "getInstallationID n E owner s = Some (Inl f, s')" "r = Inl f"
  | (requested) x s1 where "getInstallationID n E owner s = Some (Inr x, s1)"
      "requestToken E x \<lparr>RepositoryIDs = [], Permissions = permissions\<rparr> s1 = Some (r, s')"
  using assms
  by (auto simp: CreateInstallationToken_nil split: option.splits sum.splits prod.splits)

lemma updateRepositories_nil:
  "scanInstallations (heap s) (installs (app s)) owner None = None \<Longrightarrow>
   updateRepositories d n E owner s = Some (Inl NilDereference, s)"
  by (simp add: updateRepositories.simps)

lemma updateRepositories_fresh:
  "scanInstallations (heap s) (installs (app s)) owner None = Some i \<Longrightarrow>
   \<not> staleRepositories E s i \<Longrightarrow>
   updateRepositories d n E owner s = Some (Inr (), tick E s)"
  by (simp add: updateRepositories.simps time_Now_eq staleRepositories_def)

lemma updateRepositories_stale:
  "scanInstallations (heap s) (installs (app s)) owner None = Some i \<Longrightarrow>
   staleRepositories E s i \<Longrightarrow>
   updateRepositories (Suc d) n E owner s =
     (case CreateInstallationToken d n E owner [] (Some []) (tick E s) of
        None \<Rightarrow> None
      | Some (Inl err, s2) \<Rightarrow> Some (Inl err, s2)
      | Some (Inr token, s2) \<Rightarrow>
          (case listReposLoop n E (GetToken token) \<lparr>Page = 0, PerPage = 100\<rparr> [] s2 of
             None \<Rightarrow> None
           | Some (Inl err, s3) \<Rightarrow> Some (Inl err, s3)
           | Some (Inr repositories, s3) \<Rightarrow>
               Some (Inr (),
                 (tick E s3)\<lparr>heap := (heap s3)
                    (i := (heap s3 i)\<lparr>Repositories := repositories,
                           RepositoriesUpdatedAt := Now E (trace s3)\<rparr>)\<rparr>)))"
  by (simp add: updateRepositories.simps time_Now_eq staleRepositories_def
           split: option.splits sum.splits prod.splits)

lemma updateRepositories_stale_0:
  "scanInstallations (heap s) (installs (app s)) owner None = Some i \<Longrightarrow>
   staleRepositories E s i \<Longrightarrow> updateRepositories 0 n E owner s = None"
  by (simp add: updateRepositories.simps time_Now_eq staleRepositories_def)

lemma updateRepositories_cases:
  assumes "updateRepositories d n E owner s = Some (r, s')"
  obtains
    (nil) "scanInstallations (heap s) (installs (app s)) owner None = None"
      "r = Inl NilDereference" "s' = s"
  | (fresh) i where "scanInstallations (heap s) (installs (app s)) owner None = Some i"
      "\<not> staleRepositories E s i" "r = Inr ()" "s' = tick E s"
  | (token_failed) i f d' where "scanInstallations (heap s) (installs (app s)) owner None = Some i"
      "staleRepositories E s i" "d = Suc d'" "r = Inl f"
      "CreateInstallationToken d' n E owner [] (Some []) (tick E s) = Some (Inl f, s')"
  | (list_failed) i f d' token s2 where
      "scanInstallations (heap s) (installs (app s)) owner None = Some i"
      "staleRepositories E s i" "d = Suc d'" "r = Inl f"
      "CreateInstallationToken d' n E owner [] (Some []) (tick E s) = Some (Inr token, s2)"
      "listReposLoop n E (GetToken token) \<lparr>Page = 0, PerPage = 100\<rparr> [] s2 = Some (Inl f, s')"
  | (refreshed) i d' token s2 repositories s3 where
      "scanInstallations (heap s) (installs (app s)) owner None = Some i"
      "staleRepositories E s i" "d = Suc d'" "r = Inr ()"
      "CreateInstallationToken d' n E owner [] (Some []) (tick E s) = Some (Inr token, s2)"
      "listReposLoop n E (GetToken token) \<lparr>Page = 0, PerPage = 100\<rparr> [] s2
         = Some (Inr repositories, s3)"
      "s' = (tick E s3)\<lparr>heap := (heap s3)
                (i := (heap s3 i)\<lparr>Repositories := repositories,
                       RepositoriesUpdatedAt := Now E (trace s3)\<rparr>)\<rparr>"
proof (cases "scanInstallations (heap s) (installs (app s)) owner None")
  case None
  from assms have "r = Inl NilDereference" "s' = s"
    unfolding updateRepositories_nil[OF None] by simp_all
  then show ?thesis by (rule nil[OF None])
next
  case (Some i)
  show ?thesis
  proof (cases "staleRepositories E s i")
    case False
    from assms have "r = Inr ()" "s' = tick E s"
      unfolding updateRepositories_fresh[OF Some False] by simp_all
    then show ?thesis by (rule fresh[OF Some False])
  next
    case True
    show ?thesis
    proof (cases d)
      case 0
      with assms Some True show ?thesis by (simp add: updateRepositories_stale_0)
    next
      case (Suc d')
      note eq = assms[unfolded Suc updateRepositories_stale[OF Some True]]
      show ?thesis
      proof (cases "CreateInstallationToken d' n E owner [] (Some []) (tick E s)")
        case None
        with eq show ?thesis by simp
      next
        case tok: (Some a)
        obtain r1 s2 where a: "a = (r1, s2)" by (cases a)
        show ?thesis
        proof (cases r1)
          case (Inl f)
          with eq tok a have "r = Inl f" "s' = s2" by simp_all
          with tok a Inl show ?thesis by (intro token_failed[OF Some True Suc]) simp_all
        next
          case (Inr token)
          show ?thesis
          proof (cases "listReposLoop n E (GetToken token) \<lparr>Page = 0, PerPage = 100\<rparr> [] s2")
            case None
            with eq tok a Inr show ?thesis by simp
          next
            case lp: (Some b)
            obtain r2 s3 where b: "b = (r2, s3)" by (cases b)
            show ?thesis
            proof (cases r2)
              case (Inl f)
              with eq tok a Inr lp b have "r = Inl f" "s' = s3" by simp_all
              with tok a Inr lp b Inl show ?thesis
                by (intro list_failed[OF Some True Suc, of f token s2]) simp_all
            next
              case rr: (Inr repositories)
              with eq tok a Inr lp b have "r = Inr ()"
                "s' = (tick E s3)\<lparr>heap := (heap s3)
                  (i := (heap s3 i)\<lparr>Repositories := repositories,
                         RepositoriesUpdatedAt := Now E (trace s3)\<rparr>)\<rparr>" by simp_all
              with tok a Inr lp b rr show ?thesis
                by (intro refreshed[OF Some True Suc, of token s2 repositories s3]) simp_all
            qed
          qed
        qed
      qed
    qed
  qed
qed

lemma getRepositoryID_cases:
  assumes "getRepositoryID d n E owner repo s = Some (r, s')"
  obtains
    (failed) f where "updateRepositories d n E owner s = Some (Inl f, s')" "r = Inl f"
  | (found) x where "updateRepositories d n E owner s = Some (Inr (), s')"
      "findRepositoryID (heap s') (installs (app s')) owner repo = Some x" "r = Inr x"
  | (notfound) "updateRepositories d n E owner s = Some (Inr (), s')"
      "findRepositoryID (heap s') (installs (app s')) owner repo = None"
      "r = Inl (Raised (ErrInstallationNotFound (owner @ ''/'' @ repo)))"
  using assms
  by (auto simp: getRepositoryID.simps split: option.splits sum.splits prod.splits)

lemma resolveRepositories_Cons_cases:
  assumes "resolveRepositories d n E owner (repo # repos) ids s = Some (r, s')"
  obtains
    (failed) f where "getRepositoryID d n E owner repo s = Some (Inl f, s')" "r = Inl f"
  | (continue) x s1 where "getRepositoryID d n E owner repo s = Some (Inr x, s1)"
      "resolveRepositories d n E owner repos (ids @ [x]) s1 = Some (r, s')"
  using assms
  by (auto split: option.splits sum.splits prod.splits)

lemma CreateInstallationToken_cases:
  assumes "CreateInstallationToken d n E owner repos permissions s = Some (r, s')"
  obtains
    (no_installation) f where "getInstallationID n E owner s = Some (Inl f, s')" "r = Inl f"
  | (no_repository) x s1 f where "getInstallationID n E owner s = Some (Inr x, s1)"
      "resolveRepositories d n E owner repos [] s1 = Some (Inl f, s')" "r = Inl f"
  | (requested) x s1 ids s2 where "getInstallationID n E owner s = Some (Inr x, s1)"
      "resolveRepositories d n E owner repos [] s1 = Some (Inr ids, s2)"
      "requestToken E x \<lparr>RepositoryIDs = ids, Permissions = permissions\<rparr> s2 = Some (r, s')"
  using assms
  by (auto simp: CreateInstallationToken.simps split: option.splits sum.splits prod.splits)

lemma findInstallationID_find:
  "findInstallationID h ps k = map_option ID (find (\<lambda>v. Owner v = k) (map h ps))"
  by (induction ps) auto

lemma findInstallationID_None:
  "findInstallationID h ps k = None \<longleftrightarrow> (\<forall>p\<in>set ps. Owner (h p) \<noteq> k)"
  by (induction ps) auto

lemma findRepository_None:
  "findRepository rs repo = None \<longleftrightarrow> (\<forall>r\<in>set rs. RepoName r \<noteq> repo)"
  by (induction rs) auto

lemma findRepositoryID_None:
  "findRepositoryID h ps k repo = None \<longleftrightarrow>
     (\<forall>p\<in>set ps. Owner (h p) = k \<longrightarrow> (\<forall>r\<in>set (Repositories (h p)). RepoName r \<noteq> repo))"
proof (induction ps)
  case Nil
  then show ?case by simp
next
  case (Cons p ps)
  show ?case
  proof (cases "findRepository (Repositories (h p)) repo")
    case None
    then have "\<forall>r\<in>set (Repositories (h p)). RepoName r \<noteq> repo"
      by (simp add: findRepository_None)
    with Cons None show ?thesis by auto
  next
    case (Some x)
    then have "\<not> (\<forall>r\<in>set (Repositories (h p)). RepoName r \<noteq> repo)"
      using findRepository_None[of "Repositories (h p)" repo] by simp
    with Cons Some show ?thesis by auto
  qed
qed

lemma ToLower_Acme: "ToLower ''Acme'' = ''acme''"
  by code_simp

lemma toLowerChar_idem: "toLowerChar (toLowerChar c) = toLowerChar c"
  by (auto simp: toLowerChar_def Let_def)

lemma ToLower_idem: "ToLower (ToLower k) = ToLower k"
  by (simp add: ToLower_def toLowerChar_idem)

lemmas run_defs =
  updateInstallations_def getInstallationID_def time_Now_def Let_def new_installation_def
  installationOf_def listInstallationsLoop.simps listReposLoop.simps
  CreateInstallationToken.simps getRepositoryID.simps updateRepositories.simps
  requestToken_def appendRepositories_def repositoryOf_def ToLower_Acme

lemmas scenario_defs = scenarioEnv_def newState_def cachedState_def minute_def zeroInstallation_def

section \<open>Claims\<close>

subsection \<open>Not found\<close>

text \<open>C6. When the refresh of the installations succeeded or was skipped and no cached
  installation has the owner, \<open>getInstallationID\<close> fails with
  \<open>ErrInstallationNotFound owner\<close>. When the refresh of the repositories succeeded or was
  skipped and no cached installation of the owner lists the name, \<open>getRepositoryID\<close> fails
  with the same kind of error holding \<open>owner/repo\<close>. The message of the error is
  \<open>installation not found: 'key'\<close>.\<close>

theorem notfound_semantics:
  "(updateInstallations n E s = Some (Inr (), s1) \<longrightarrow>
      (\<forall>p\<in>set (installs (app s1)). Owner (heap s1 p) \<noteq> owner) \<longrightarrow>
      getInstallationID n E owner s = Some (Inl (Raised (ErrInstallationNotFound owner)), s1))
   \<and> (updateRepositories d n' E' owner' t = Some (Inr (), t1) \<longrightarrow>
      (\<forall>p\<in>set (installs (app t1)). Owner (heap t1 p) = owner' \<longrightarrow>
         (\<forall>r\<in>set (Repositories (heap t1 p)). RepoName r \<noteq> repo)) \<longrightarrow>
      getRepositoryID d n' E' owner' repo t
        = Some (Inl (Raised (ErrInstallationNotFound (owner' @ ''/'' @ repo))), t1))
   \<and> Error (ErrInstallationNotFound key)
        = ''installation not found: '' @ [CHR 0x27] @ key @ [CHR 0x27]"
  by (simp add: getInstallationID_def getRepositoryID.simps
        findInstallationID_None[symmetric] findRepositoryID_None[symmetric])

theorem notfound_semantics_witness:
  "map_option fst (getInstallationID (Suc 0) scenarioEnv ''ghost'' newState)
     = Some (Inl (Raised (ErrInstallationNotFound ''ghost'')))
   \<and> map_option fst (getRepositoryID 0 0 scenarioEnv ''acme'' ''ghost'' cachedState)
     = Some (Inl (Raised (ErrInstallationNotFound ''acme/ghost'')))
   \<and> Error (ErrInstallationNotFound ''acme/ghost'') = ''installation not found: '' @ [CHR 0x27] @ ''acme/ghost'' @ [CHR 0x27]"
proof -
  obtain s1 where u1: "updateInstallations (Suc 0) scenarioEnv newState = Some (Inr (), s1)"
    and i1: "installs (app s1) = [0]" and o1: "Owner (heap s1 0) = ''acme''"
    by (simp add: run_defs scenario_defs)
  obtain s2 where u2: "updateRepositories 0 0 scenarioEnv ''acme'' cachedState = Some (Inr (), s2)"
    and i2: "installs (app s2) = [0]"
    and r2: "map RepoName (Repositories (heap s2 0)) = [''repoA'', ''repoB'', ''repoC'']"
    by (simp add: run_defs scenario_defs)
  have a1: "\<forall>p\<in>set (installs (app s1)). Owner (heap s1 p) \<noteq> ''ghost''"
    using i1 o1 by simp
  have a2: "\<forall>p\<in>set (installs (app s2)). Owner (heap s2 p) = ''acme'' \<longrightarrow>
         (\<forall>r\<in>set (Repositories (heap s2 p)). RepoName r \<noteq> ''ghost'')"
  proof -
    have "''ghost'' \<notin> set (map RepoName (Repositories (heap s2 0)))" unfolding r2 by simp
    then show ?thesis using i2 by force
  qed
  from notfound_semantics[of "Suc 0" scenarioEnv newState s1 "''ghost''" 0 0 scenarioEnv "''acme''" cachedState s2 "''ghost''" "''acme/ghost''"]
    u1 u2 a1 a2
  show ?thesis by simp
qed

subsection \<open>Owner matching\<close>

text \<open>C1, as stated, fails: in the scenario, where the installation 7 is fetched with the
  login \<open>Acme\<close>, the key \<open>Acme\<close> has the same lower-casing as the login, and
  \<open>getInstallationID\<close> answers that no installation was found.\<close>

theorem owner_case_counterexample:
  "fetchedInstallations (trace (snd (the (getInstallationID (Suc 0) scenarioEnv ''Acme'' newState))))
     = [\<lparr>GetID = 7, GetLogin = ''Acme''\<rparr>]
   \<and> ToLower ''Acme'' = ToLower (GetLogin \<lparr>GetID = 7, GetLogin = ''Acme''\<rparr>)
   \<and> map_option fst (getInstallationID (Suc 0) scenarioEnv ''Acme'' newState)
     = Some (Inl (Raised (ErrInstallationNotFound ''Acme'')))"
  by (simp add: run_defs scenario_defs)

lemma find_map: "find P (map f xs) = map_option f (find (P \<circ> f) xs)"
  by (induction xs) auto

lemma updateInstallations_refreshed:
  assumes "stale E s" and "updateInstallations n E s = Some (Inr (), s1)"
  shows "map (heap s1) (installs (app s1))
           = map installationOf (fetchedInstallations (drop (length (trace s)) (trace s1)))"
  using assms(2)
proof (cases rule: updateInstallations_cases)
  case fresh
  with assms(1) show ?thesis by simp
next
  case (failed f)
  then show ?thesis by simp
next
  case (refreshed newInstalls s2)
  from listInstallationsLoop_Inr[OF refreshed(3)] obtain evs where
    tr: "trace s2 = trace (tick E s) @ evs"
    and nx: "nxt s2 = nxt (tick E s) + length (fetchedInstallations evs)"
    and res: "newInstalls = [] @ [nxt (tick E s) ..< nxt s2]"
    and new: "map (heap s2) [nxt (tick E s) ..< nxt s2] = map installationOf (fetchedInstallations evs)"
    by blast
  have "drop (length (trace s)) (trace s1) = NowEv (Now E (trace s)) # evs @ [NowEv (Now E (trace s2))]"
    using refreshed(4) tr by simp
  then show ?thesis using refreshed(4) res new by simp
qed

text \<open>C1, amended. The fetched logins are lower-cased and the key is compared as it is
  given: after a refresh that succeeded, \<open>getInstallationID k\<close> returns the identifier of
  the first fetched installation whose lower-cased login is \<open>k\<close>, and fails with
  \<open>ErrInstallationNotFound k\<close> when there is none. So a key that is not in lower case is
  never found.\<close>

theorem owner_lowercase_lookup:
  assumes "stale E s" and "updateInstallations n E s = Some (Inr (), s1)"
  shows "getInstallationID n E k s =
           Some (case find (\<lambda>i. ToLower (GetLogin i) = k)
                        (fetchedInstallations (drop (length (trace s)) (trace s1))) of
                   Some i \<Rightarrow> Inr (GetID i)
                 | None \<Rightarrow> Inl (Raised (ErrInstallationNotFound k)), s1)
         \<and> (k' \<noteq> ToLower k' \<longrightarrow>
              getInstallationID n E k' s = Some (Inl (Raised (ErrInstallationNotFound k')), s1))"
proof -
  let ?F = "fetchedInstallations (drop (length (trace s)) (trace s1))"
  have f: "findInstallationID (heap s1) (installs (app s1)) x
             = map_option GetID (find (\<lambda>i. ToLower (GetLogin i) = x) ?F)" for x
    unfolding findInstallationID_find updateInstallations_refreshed[OF assms]
    by (simp add: find_map comp_def installationOf_def option.map_comp)
  have g: "getInstallationID n E x s =
           Some (case find (\<lambda>i. ToLower (GetLogin i) = x) ?F of
                   Some i \<Rightarrow> Inr (GetID i)
                 | None \<Rightarrow> Inl (Raised (ErrInstallationNotFound x)), s1)" for x
    using assms(2) f[of x] by (simp add: getInstallationID_def split: option.splits)
  have "getInstallationID n E k' s = Some (Inl (Raised (ErrInstallationNotFound k')), s1)"
    if "k' \<noteq> ToLower k'"
  proof -
    from that have "find (\<lambda>i. ToLower (GetLogin i) = k') ?F = None"
      by (auto simp: find_None_iff ToLower_idem)
    with g[of k'] show ?thesis by simp
  qed
  with g[of k] show ?thesis by blast
qed

theorem owner_lowercase_lookup_witness:
  "stale scenarioEnv newState
   \<and> map_option fst (getInstallationID (Suc 0) scenarioEnv ''acme'' newState) = Some (Inr 7)
   \<and> ''Acme'' \<noteq> ToLower ''Acme''
   \<and> map_option fst (getInstallationID (Suc 0) scenarioEnv ''Acme'' newState)
       = Some (Inl (Raised (ErrInstallationNotFound ''Acme'')))"
proof -
  have st: "stale scenarioEnv newState"
    by (simp add: stale_def scenario_defs)
  obtain s1 where u: "updateInstallations (Suc 0) scenarioEnv newState = Some (Inr (), s1)"
    and f: "fetchedInstallations (drop (length (trace newState)) (trace s1))
              = [\<lparr>GetID = 7, GetLogin = ''Acme''\<rparr>]"
    by (simp add: run_defs scenario_defs)
  from owner_lowercase_lookup[OF st u, of "''acme''" "''Acme''"] st f
  show ?thesis by (simp add: ToLower_Acme)
qed

subsection \<open>The depth of the mutual calls\<close>

lemma updateRepositories_depth:
  "updateRepositories (Suc d) n E owner s = updateRepositories (Suc 0) n E owner s"
proof (cases "scanInstallations (heap s) (installs (app s)) owner None")
  case None
  then show ?thesis by (simp add: updateRepositories_nil)
next
  case (Some i)
  show ?thesis
  proof (cases "staleRepositories E s i")
    case False
    with Some show ?thesis by (simp add: updateRepositories_fresh)
  next
    case True
    show ?thesis
      unfolding updateRepositories_stale[OF Some True] CreateInstallationToken_nil ..
  qed
qed

lemma getRepositoryID_depth:
  "getRepositoryID (Suc d) n E owner repo s = getRepositoryID (Suc 0) n E owner repo s"
  unfolding getRepositoryID.simps updateRepositories_depth[of d] ..

lemma resolveRepositories_depth:
  "resolveRepositories (Suc d) n E owner repos ids s
     = resolveRepositories (Suc 0) n E owner repos ids s"
proof (induction repos arbitrary: ids s)
  case Nil
  show ?case by simp
next
  case (Cons repo repos)
  show ?case
    unfolding resolveRepositories.simps getRepositoryID_depth[of d] Cons.IH ..
qed

lemma CreateInstallationToken_depth:
  "CreateInstallationToken (Suc d) n E owner repos permissions s
     = CreateInstallationToken (Suc 0) n E owner repos permissions s"
  unfolding CreateInstallationToken.simps resolveRepositories_depth[of d] ..

lemma updateInstallations_returns:
  assumes "\<forall>opts acc t. listInstallationsLoop n E opts acc t \<noteq> None"
  shows "updateInstallations n E s \<noteq> None"
proof (cases "stale E s")
  case False
  then show ?thesis by (simp add: updateInstallations_fresh)
next
  case True
  from assms obtain y where "listInstallationsLoop n E \<lparr>Page = 0, PerPage = 10\<rparr> [] (tick E s) = Some y"
    by blast
  then show ?thesis
    by (simp add: updateInstallations_stale[OF True] split: prod.splits sum.splits)
qed

lemma getInstallationID_returns:
  assumes "\<forall>opts acc t. listInstallationsLoop n E opts acc t \<noteq> None"
  shows "getInstallationID n E owner s \<noteq> None"
  using updateInstallations_returns[OF assms, of s]
  by (auto simp: getInstallationID_def split: option.splits prod.splits sum.splits)

lemma CreateInstallationToken_nil_returns:
  assumes "\<forall>opts acc t. listInstallationsLoop n E opts acc t \<noteq> None"
  shows "CreateInstallationToken d n E owner [] permissions s \<noteq> None"
  using getInstallationID_returns[OF assms, of owner s]
  by (auto simp: CreateInstallationToken_nil requestToken_eq split: option.splits prod.splits sum.splits)

lemma updateRepositories_returns:
  assumes "\<forall>opts acc t. listInstallationsLoop n E opts acc t \<noteq> None"
    and "\<forall>token opts acc t. listReposLoop n E token opts acc t \<noteq> None"
  shows "updateRepositories (Suc d) n E owner s \<noteq> None"
proof (cases "scanInstallations (heap s) (installs (app s)) owner None")
  case None
  then show ?thesis by (simp add: updateRepositories_nil)
next
  case (Some i)
  show ?thesis
  proof (cases "staleRepositories E s i")
    case False
    with Some show ?thesis by (simp add: updateRepositories_fresh)
  next
    case True
    from CreateInstallationToken_nil_returns[OF assms(1)] obtain r1 s2 where
      c: "CreateInstallationToken d n E owner [] (Some []) (tick E s) = Some (r1, s2)"
      by fastforce
    show ?thesis
    proof (cases r1)
      case (Inl f)
      with c show ?thesis by (simp add: updateRepositories_stale[OF Some True])
    next
      case (Inr token)
      from assms(2) obtain y where
        "listReposLoop n E (GetToken token) \<lparr>Page = 0, PerPage = 100\<rparr> [] s2 = Some y" by blast
      with c Inr show ?thesis
        by (simp add: updateRepositories_stale[OF Some True] split: prod.splits sum.splits)
    qed
  qed
qed

lemma getRepositoryID_returns:
  assumes "\<forall>opts acc t. listInstallationsLoop n E opts acc t \<noteq> None"
    and "\<forall>token opts acc t. listReposLoop n E token opts acc t \<noteq> None"
  shows "getRepositoryID (Suc d) n E owner repo s \<noteq> None"
  using updateRepositories_returns[OF assms, of d owner s]
  by (auto simp: getRepositoryID.simps split: option.splits prod.splits sum.splits)

lemma resolveRepositories_returns:
  assumes "\<forall>opts acc t. listInstallationsLoop n E opts acc t \<noteq> None"
    and "\<forall>token opts acc t. listReposLoop n E token opts acc t \<noteq> None"
  shows "resolveRepositories (Suc d) n E owner repos ids s \<noteq> None"
proof (induction repos arbitrary: ids s)
  case Nil
  show ?case by simp
next
  case (Cons repo repos)
  from getRepositoryID_returns[OF assms, of d owner repo s] obtain r1 s1 where
    g: "getRepositoryID (Suc d) n E owner repo s = Some (r1, s1)" by fastforce
  show ?case
  proof (cases r1)
    case (Inl f)
    with g show ?thesis by simp
  next
    case (Inr x)
    with g Cons.IH[of "ids @ [x]" s1] show ?thesis by simp
  qed
qed

lemma CreateInstallationToken_returns:
  assumes "\<forall>opts acc t. listInstallationsLoop n E opts acc t \<noteq> None"
    and "\<forall>token opts acc t. listReposLoop n E token opts acc t \<noteq> None"
  shows "CreateInstallationToken (Suc d) n E owner repos permissions s \<noteq> None"
proof -
  from getInstallationID_returns[OF assms(1), of owner s] obtain r1 s1 where
    g: "getInstallationID n E owner s = Some (r1, s1)" by fastforce
  show ?thesis
  proof (cases r1)
    case (Inl f)
    with g show ?thesis by (simp add: CreateInstallationToken.simps)
  next
    case (Inr x)
    from resolveRepositories_returns[OF assms, of d owner repos "[]" s1] obtain r2 s2 where
      r: "resolveRepositories (Suc d) n E owner repos [] s1 = Some (r2, s2)" by fastforce
    with g Inr show ?thesis
      by (cases r2) (simp_all add: CreateInstallationToken.simps requestToken_eq)
  qed
qed

text \<open>C4. The call of \<open>CreateInstallationToken\<close> with no repository name is the resolution
  of the installation followed by the token request: it reaches neither \<open>getRepositoryID\<close>
  nor \<open>updateRepositories\<close>, whatever depth is allowed. The refresh of the repositories
  mints its token by exactly that call, with the empty permission set, and needs no further
  depth for it. So a depth of one serves every call, and every call returns when the two
  listings end within the bound on their pages.\<close>

theorem bootstrap_depth_one:
  "CreateInstallationToken d n E owner [] permissions s =
     (case getInstallationID n E owner s of
        None \<Rightarrow> None
      | Some (Inl err, s1) \<Rightarrow> Some (Inl err, s1)
      | Some (Inr installationID, s1) \<Rightarrow>
          requestToken E installationID \<lparr>RepositoryIDs = [], Permissions = permissions\<rparr> s1)
   \<and> (scanInstallations (heap s) (installs (app s)) owner None = Some i \<longrightarrow>
        staleRepositories E s i \<longrightarrow>
        updateRepositories (Suc d) n E owner s =
          (case CreateInstallationToken 0 n E owner [] (Some []) (tick E s) of
             None \<Rightarrow> None
           | Some (Inl err, s2) \<Rightarrow> Some (Inl err, s2)
           | Some (Inr token, s2) \<Rightarrow>
               (case listReposLoop n E (GetToken token) \<lparr>Page = 0, PerPage = 100\<rparr> [] s2 of
                  None \<Rightarrow> None
                | Some (Inl err, s3) \<Rightarrow> Some (Inl err, s3)
                | Some (Inr repositories, s3) \<Rightarrow>
                    Some (Inr (),
                      (tick E s3)\<lparr>heap := (heap s3)
                         (i := (heap s3 i)\<lparr>Repositories := repositories,
                                RepositoriesUpdatedAt := Now E (trace s3)\<rparr>)\<rparr>))))
   \<and> CreateInstallationToken (Suc d) n E owner repos permissions s
        = CreateInstallationToken (Suc 0) n E owner repos permissions s
   \<and> ((\<forall>opts acc t. listInstallationsLoop n E opts acc t \<noteq> None) \<longrightarrow>
        (\<forall>token opts acc t. listReposLoop n E token opts acc t \<noteq> None) \<longrightarrow>
        CreateInstallationToken (Suc d) n E owner repos permissions s \<noteq> None)"
proof -
  have a: "scanInstallations (heap s) (installs (app s)) owner None = Some i \<longrightarrow>
        staleRepositories E s i \<longrightarrow>
        updateRepositories (Suc d) n E owner s =
          (case CreateInstallationToken 0 n E owner [] (Some []) (tick E s) of
             None \<Rightarrow> None
           | Some (Inl err, s2) \<Rightarrow> Some (Inl err, s2)
           | Some (Inr token, s2) \<Rightarrow>
               (case listReposLoop n E (GetToken token) \<lparr>Page = 0, PerPage = 100\<rparr> [] s2 of
                  None \<Rightarrow> None
                | Some (Inl err, s3) \<Rightarrow> Some (Inl err, s3)
                | Some (Inr repositories, s3) \<Rightarrow>
                    Some (Inr (),
                      (tick E s3)\<lparr>heap := (heap s3)
                         (i := (heap s3 i)\<lparr>Repositories := repositories,
                                RepositoriesUpdatedAt := Now E (trace s3)\<rparr>)\<rparr>)))"
  proof (intro impI)
    assume sc: "scanInstallations (heap s) (installs (app s)) owner None = Some i"
      and st: "staleRepositories E s i"
    show "updateRepositories (Suc d) n E owner s =
          (case CreateInstallationToken 0 n E owner [] (Some []) (tick E s) of
             None \<Rightarrow> None
           | Some (Inl err, s2) \<Rightarrow> Some (Inl err, s2)
           | Some (Inr token, s2) \<Rightarrow>
               (case listReposLoop n E (GetToken token) \<lparr>Page = 0, PerPage = 100\<rparr> [] s2 of
                  None \<Rightarrow> None
                | Some (Inl err, s3) \<Rightarrow> Some (Inl err, s3)
                | Some (Inr repositories, s3) \<Rightarrow>
                    Some (Inr (),
                      (tick E s3)\<lparr>heap := (heap s3)
                         (i := (heap s3 i)\<lparr>Repositories := repositories,
                                RepositoriesUpdatedAt := Now E (trace s3)\<rparr>)\<rparr>)))"
      unfolding updateRepositories_stale[OF sc st] CreateInstallationToken_nil ..
  qed
  show ?thesis
    using a CreateInstallationToken_nil[of d n E owner permissions s]
      CreateInstallationToken_depth[of d n E owner repos permissions s]
      CreateInstallationToken_returns[of n E d owner repos permissions s]
    by blast
qed

theorem bootstrap_depth_one_witness:
  "scanInstallations (heap expiredState) (installs (app expiredState)) ''acme'' None = Some 0
   \<and> staleRepositories scenarioEnv expiredState 0
   \<and> (\<forall>opts acc t. listInstallationsLoop (Suc 0) scenarioEnv opts acc t \<noteq> None)
   \<and> (\<forall>token opts acc t. listReposLoop (Suc 0) scenarioEnv token opts acc t \<noteq> None)
   \<and> map_option fst (updateRepositories (Suc 0) (Suc 0) scenarioEnv ''acme'' expiredState)
       = Some (Inr ())
   \<and> CreateInstallationToken (Suc 0) (Suc 0) scenarioEnv ''acme'' [''infra'']
         (Some [(''metadata'', ''read'')]) expiredState \<noteq> None"
proof -
  have l1: "\<forall>opts acc t. listInstallationsLoop (Suc 0) scenarioEnv opts acc t \<noteq> None"
    by (simp add: listInstallationsLoop.simps scenarioEnv_def case_prod_beta Let_def)
  have l2: "\<forall>token opts acc t. listReposLoop (Suc 0) scenarioEnv token opts acc t \<noteq> None"
    by (simp add: listReposLoop.simps scenarioEnv_def Let_def)
  have sc: "scanInstallations (heap expiredState) (installs (app expiredState)) ''acme'' None
              = Some 0"
    by (simp add: expiredState_def)
  have st: "staleRepositories scenarioEnv expiredState 0"
    by (simp add: staleRepositories_def expiredState_def scenario_defs)
  have b: "map_option fst (CreateInstallationToken 0 (Suc 0) scenarioEnv ''acme'' [] (Some [])
             (tick scenarioEnv expiredState)) = Some (Inr \<lparr>GetToken = ''v1.token''\<rparr>)"
    by (simp add: run_defs scenario_defs expiredState_def tick_def)
  from bootstrap_depth_one[of 0 "Suc 0" scenarioEnv "''acme''" "Some [(''metadata'', ''read'')]"
      expiredState 0 "[''infra'']"] l1 l2 sc st b
  show ?thesis
    by (auto simp: listReposLoop.simps scenarioEnv_def Let_def split: option.splits prod.splits)
qed

subsection \<open>The nil pointer, first part\<close>

lemma scanInstallations_None:
  "scanInstallations h ps owner i = None \<longleftrightarrow> i = None \<and> (\<forall>p\<in>set ps. Owner (h p) \<noteq> owner)"
  by (induction ps arbitrary: i) auto

lemma findRepositoryID_Some_owner:
  "findRepositoryID h ps owner repo = Some x \<Longrightarrow> \<exists>p\<in>set ps. Owner (h p) = owner"
  by (induction ps) (auto split: if_splits option.splits)

lemma updateInstallations_no_panic:
  assumes "updateInstallations n E s = Some (r, s')"
  shows "r \<noteq> Inl NilDereference"
  using assms
proof (cases rule: updateInstallations_cases)
  case fresh
  then show ?thesis by simp
next
  case (failed f)
  from listInstallationsLoop_Inl[OF failed(3)] failed(2) show ?thesis by auto
next
  case (refreshed newInstalls s2)
  then show ?thesis by simp
qed

lemma getInstallationID_no_panic:
  assumes "getInstallationID n E owner s = Some (r, s')"
  shows "r \<noteq> Inl NilDereference"
  using assms
proof (cases rule: getInstallationID_cases)
  case (failed f)
  with updateInstallations_no_panic[OF failed(1)] show ?thesis by simp
qed simp_all

lemma getInstallationID_Inr_owner:
  assumes "getInstallationID n E owner s = Some (Inr x, s')"
  shows "scanInstallations (heap s') (installs (app s')) owner None \<noteq> None"
  using assms
proof (cases rule: getInstallationID_cases)
  case (found y)
  then have "findInstallationID (heap s') (installs (app s')) owner \<noteq> None" by simp
  then show ?thesis by (simp add: findInstallationID_None scanInstallations_None)
qed simp_all

lemma requestToken_no_panic:
  "requestToken E i opts s = Some (r, s') \<Longrightarrow> r \<noteq> Inl NilDereference"
  by (auto simp: requestToken_eq split: sum.splits)

lemma CreateInstallationToken_nil_no_panic:
  assumes "CreateInstallationToken d n E owner [] permissions s = Some (r, s')"
  shows "r \<noteq> Inl NilDereference"
  using assms
proof (cases rule: CreateInstallationToken_nil_cases)
  case (failed f)
  with getInstallationID_no_panic[OF failed(1)] show ?thesis by simp
next
  case (requested x s1)
  from requestToken_no_panic[OF requested(2)] show ?thesis .
qed

lemma updateRepositories_no_panic:
  assumes "updateRepositories d n E owner s = Some (r, s')"
    and "scanInstallations (heap s) (installs (app s)) owner None \<noteq> None"
  shows "r \<noteq> Inl NilDereference"
  using assms(1)
proof (cases rule: updateRepositories_cases)
  case nil
  with assms(2) show ?thesis by simp
next
  case (fresh i)
  then show ?thesis by simp
next
  case (token_failed i f d')
  with CreateInstallationToken_nil_no_panic[OF token_failed(5)] show ?thesis by simp
next
  case (list_failed i f d' token s2)
  from listReposLoop_Inl[OF list_failed(6)] list_failed(4) show ?thesis by auto
next
  case (refreshed i d' token s2 repositories s3)
  then show ?thesis by simp
qed

lemma getRepositoryID_no_panic:
  assumes "getRepositoryID d n E owner repo s = Some (r, s')"
    and "scanInstallations (heap s) (installs (app s)) owner None \<noteq> None"
  shows "r \<noteq> Inl NilDereference"
  using assms(1)
proof (cases rule: getRepositoryID_cases)
  case (failed f)
  with updateRepositories_no_panic[OF failed(1) assms(2)] show ?thesis by simp
qed simp_all

lemma getRepositoryID_Inr_owner:
  assumes "getRepositoryID d n E owner repo s = Some (Inr x, s')"
  shows "scanInstallations (heap s') (installs (app s')) owner None \<noteq> None"
  using assms
proof (cases rule: getRepositoryID_cases)
  case (found y)
  from findRepositoryID_Some_owner[OF found(2)] show ?thesis
    by (simp add: scanInstallations_None)
qed simp_all

lemma resolveRepositories_no_panic:
  "resolveRepositories d n E owner repos ids s = Some (r, s') \<Longrightarrow>
   scanInstallations (heap s) (installs (app s)) owner None \<noteq> None \<Longrightarrow>
   r \<noteq> Inl NilDereference"
proof (induction repos arbitrary: ids s)
  case Nil
  then show ?case by auto
next
  case (Cons repo repos)
  from Cons.prems(1) show ?case
  proof (cases rule: resolveRepositories_Cons_cases)
    case (failed f)
    with getRepositoryID_no_panic[OF failed(1) Cons.prems(2)] show ?thesis by simp
  next
    case (continue x s1)
    from Cons.IH[OF continue(2) getRepositoryID_Inr_owner[OF continue(1)]] show ?thesis .
  qed
qed

subsection \<open>What every call does\<close>

lemma faithful_clean: "\<forall>ev\<in>set evs. failure ev = None \<Longrightarrow> faithful evs r"
  by (simp add: faithful_def)

lemma propagated_failure: "propagated ev = Some e \<Longrightarrow> failure ev \<noteq> None"
  by (cases ev) (auto split: sum.splits)

lemma faithful_Inr: "faithful evs (Inr x) \<Longrightarrow> \<forall>ev\<in>set evs. failure ev = None"
  by (auto simp: faithful_def)

lemma faithful_append:
  "\<forall>ev\<in>set evs1. failure ev = None \<Longrightarrow> faithful evs2 r \<Longrightarrow> faithful (evs1 @ evs2) r"
  unfolding faithful_def
proof (elim disjE exE conjE)
  assume "\<forall>ev\<in>set evs1. failure ev = None" "\<forall>ev\<in>set evs2. failure ev = None"
  then show "(\<forall>ev\<in>set (evs1 @ evs2). failure ev = None) \<or>
    (\<exists>evs' ev e. evs1 @ evs2 = evs' @ [ev] \<and> (\<forall>ev'\<in>set evs'. failure ev' = None)
        \<and> propagated ev = Some e \<and> r = Inl (Raised e))" by auto
next
  fix evs' ev e
  assume a: "\<forall>ev\<in>set evs1. failure ev = None" "evs2 = evs' @ [ev]"
    "\<forall>ev'\<in>set evs'. failure ev' = None" "propagated ev = Some e" "r = Inl (Raised e)"
  then have "evs1 @ evs2 = (evs1 @ evs') @ [ev] \<and> (\<forall>ev'\<in>set (evs1 @ evs'). failure ev' = None)
        \<and> propagated ev = Some e \<and> r = Inl (Raised e)" by auto
  then show "(\<forall>ev\<in>set (evs1 @ evs2). failure ev = None) \<or>
    (\<exists>evs' ev e. evs1 @ evs2 = evs' @ [ev] \<and> (\<forall>ev'\<in>set evs'. failure ev' = None)
        \<and> propagated ev = Some e \<and> r = Inl (Raised e))" by blast
qed

lemma faithful_Inl: "faithful evs (Inl f :: fault + 'a) \<Longrightarrow> faithful evs (Inl f :: fault + 'b)"
  by (auto simp: faithful_def)

lemma faithful_last:
  "\<forall>ev\<in>set evs. failure ev = None \<Longrightarrow> propagated ev = Some e \<Longrightarrow>
   faithful (evs @ [ev]) (Inl (Raised e))"
  by (auto simp: faithful_def)

lemma steps_refl: "steps E s s []"
  by (simp add: steps_def)

lemma steps_trans:
  "steps E s s1 evs1 \<Longrightarrow> steps E s1 s' evs2 \<Longrightarrow> steps E s s' (evs1 @ evs2)"
  by (auto simp: steps_def answered_append)

lemma pureSteps_trans:
  "pureSteps E s s1 evs1 \<Longrightarrow> pureSteps E s1 s' evs2 \<Longrightarrow> pureSteps E s s' (evs1 @ evs2)"
  unfolding pureSteps_def using steps_trans[of E s s1 evs1 s' evs2]
  by (auto simp: steps_def)

lemma pureSteps_tick: "pureSteps E s (tick E s) [NowEv (Now E (trace s))]"
  by (simp add: pureSteps_def steps_def wellFormed_def)

lemma installationsRun_not_listsRepos:
  "installationsRun opts evs \<Longrightarrow> \<forall>ev\<in>set evs. \<not> listsRepos ev"
proof (induction evs arbitrary: opts)
  case Nil
  then show ?case by simp
next
  case (Cons ev evs)
  from Cons.prems obtain list response where
    ev: "ev = ListInstallationsEv opts (Inr (list, response))"
    and rest: "if NextPage response = 0 then evs = []
               else installationsRun (opts\<lparr>Page := NextPage response\<rparr>) evs"
    by (auto split: event.splits sum.splits prod.splits)
  show ?case
  proof (cases "NextPage response = 0")
    case True
    with rest ev show ?thesis by simp
  next
    case False
    with rest Cons.IH ev show ?thesis by simp
  qed
qed

lemma listInstallationsLoop_events:
  "listInstallationsLoop n E opts acc s = Some (r, s') \<Longrightarrow>
   \<exists>evs. trace s' = trace s @ evs \<and> (\<forall>ev\<in>set evs. \<not> listsRepos ev)"
proof (induction n arbitrary: opts acc s)
  case 0
  then show ?case by (simp add: listInstallationsLoop.simps)
next
  case (Suc n)
  let ?r = "ListInstallations E (trace s) opts"
  let ?ev = "ListInstallationsEv opts ?r"
  let ?s1 = "s\<lparr>trace := trace s @ [?ev]\<rparr>"
  show ?case
  proof (cases ?r)
    case (Inl err)
    with Suc.prems have "s' = ?s1"
      by (auto simp: listInstallationsLoop.simps Let_def)
    then show ?thesis by (intro exI[of _ "[?ev]"]) simp
  next
    case (Inr pr)
    obtain list response where pr: "pr = (list, response)" by (cases pr)
    let ?s2 = "snd (appendInstallations list acc ?s1)"
    let ?acc2 = "acc @ [nxt s ..< nxt s + length list]"
    show ?thesis
    proof (cases "NextPage response = 0")
      case True
      with Suc.prems Inr pr have "s' = ?s2"
        by (auto simp: listInstallationsLoop.simps Let_def case_prod_beta)
      then show ?thesis by (intro exI[of _ "[?ev]"]) simp
    next
      case False
      with Suc.prems Inr pr
      have "listInstallationsLoop n E (opts\<lparr>Page := NextPage response\<rparr>) ?acc2 ?s2 = Some (r, s')"
        by (auto simp: listInstallationsLoop.simps Let_def case_prod_beta)
      from Suc.IH[OF this] obtain evs where
        "trace s' = trace ?s2 @ evs" "\<forall>ev\<in>set evs. \<not> listsRepos ev" by blast
      then show ?thesis by (intro exI[of _ "?ev # evs"]) simp
    qed
  qed
qed

lemma listInstallationsLoop_Inl_run:
  assumes "listInstallationsLoop n E opts acc s = Some (Inl f, s')"
  shows "\<exists>evs. pureSteps E s s' evs \<and> faithful evs (Inl f :: fault + 'a)"
proof -
  from listInstallationsLoop_Inl[OF assms] obtain evs opts' err where
    tr: "trace s' = trace s @ evs @ [ListInstallationsEv opts' (Inl err)]"
    and f: "f = Raised err"
    and ans: "answered E (trace s) (evs @ [ListInstallationsEv opts' (Inl err)])"
    and nf: "\<forall>ev\<in>set evs. failure ev = None"
    and app: "app s' = app s" and nx: "nxt s \<le> nxt s'"
    and old: "\<forall>p<nxt s. heap s' p = heap s p"
    by blast
  from listInstallationsLoop_events[OF assms] tr
  have nr: "\<forall>ev\<in>set (evs @ [ListInstallationsEv opts' (Inl err)]). \<not> listsRepos ev" by auto
  have "faithful (evs @ [ListInstallationsEv opts' (Inl err)]) (Inl f :: fault + 'a)"
    unfolding f by (rule faithful_last[OF nf]) simp
  moreover have "pureSteps E s s' (evs @ [ListInstallationsEv opts' (Inl err)])"
    using tr ans app nx old nr unfolding pureSteps_def steps_def wellFormed_def by auto
  ultimately show ?thesis by blast
qed

lemma updateInstallations_run:
  assumes "updateInstallations n E s = Some (r, s')"
  shows "\<exists>evs. pureSteps E s s' evs \<and> faithful evs r"
  using assms
proof (cases rule: updateInstallations_cases)
  case fresh
  then show ?thesis
    using pureSteps_tick[of E s] by (auto intro!: exI[of _ "[NowEv (Now E (trace s))]"] faithful_clean)
next
  case (failed f)
  from listInstallationsLoop_Inl_run[OF failed(3)] obtain evs where
    p: "pureSteps E (tick E s) s' evs" and fa: "faithful evs (Inl f :: fault + unit)" by blast
  from pureSteps_trans[OF pureSteps_tick p] faithful_append[OF _ fa, of "[NowEv (Now E (trace s))]"]
  show ?thesis unfolding failed(2) by auto
next
  case (refreshed newInstalls s2)
  from listInstallationsLoop_Inr[OF refreshed(3)] obtain evs where
    tr: "trace s2 = trace (tick E s) @ evs" and run: "installationsRun \<lparr>Page = 0, PerPage = 10\<rparr> evs"
    and ans: "answered E (trace (tick E s)) evs"
    and nf: "\<forall>ev\<in>set evs. failure ev = None"
    and app: "app s2 = app (tick E s)"
    and nx: "nxt s2 = nxt (tick E s) + length (fetchedInstallations evs)"
    and res: "newInstalls = [] @ [nxt (tick E s) ..< nxt s2]"
    and old: "\<forall>p<nxt (tick E s). heap s2 p = heap (tick E s) p"
    by blast
  let ?evs = "NowEv (Now E (trace s)) # evs @ [NowEv (Now E (trace s2))]"
  have "pureSteps E s s' ?evs"
    using tr ans app nx res old installationsRun_not_listsRepos[OF run] refreshed(4)
    unfolding pureSteps_def steps_def wellFormed_def
    by (auto simp: answered_append)
  moreover have "faithful ?evs r" using nf by (intro faithful_clean) simp
  ultimately show ?thesis by blast
qed

lemma getInstallationID_run:
  assumes "getInstallationID n E owner s = Some (r, s')"
  shows "\<exists>evs. pureSteps E s s' evs \<and> faithful evs r"
  using assms
proof (cases rule: getInstallationID_cases)
  case (failed f)
  from updateInstallations_run[OF failed(1)] obtain evs where
    p: "pureSteps E s s' evs" and fa: "faithful evs (Inl f :: fault + unit)" by blast
  from faithful_Inl[OF fa] have "faithful evs r" unfolding failed(2) .
  with p show ?thesis by blast
next
  case (found x)
  from updateInstallations_run[OF found(1)] obtain evs where
    p: "pureSteps E s s' evs" and fa: "faithful evs (Inr () :: fault + unit)" by blast
  from faithful_clean[OF faithful_Inr[OF fa]] have "faithful evs r" .
  with p show ?thesis by blast
next
  case notfound
  from updateInstallations_run[OF notfound(1)] obtain evs where
    p: "pureSteps E s s' evs" and fa: "faithful evs (Inr () :: fault + unit)" by blast
  from faithful_clean[OF faithful_Inr[OF fa]] have "faithful evs r" .
  with p show ?thesis by blast
qed

lemma requestToken_run:
  assumes "requestToken E i opts s = Some (r, s')"
  shows "\<exists>evs. pureSteps E s s' evs \<and> faithful evs r"
proof -
  let ?a = "ClientCreateInstallationToken E (trace s) i opts"
  let ?ev = "CreateInstallationTokenEv i opts ?a"
  from assms have s': "s' = s\<lparr>trace := trace s @ [?ev]\<rparr>"
    and r: "r = (case ?a of
             Inl err \<Rightarrow> Inl (Raised (Errorf (''failed to create token: '' @ Error err)))
           | Inr t \<Rightarrow> Inr t)"
    by (simp_all add: requestToken_eq)
  have "pureSteps E s s' [?ev]"
    unfolding s' pureSteps_def steps_def wellFormed_def by simp
  moreover have "faithful [?ev] r"
  proof (cases ?a)
    case (Inl err)
    with r show ?thesis using faithful_last[of "[]" ?ev] by simp
  next
    case (Inr t)
    then show ?thesis by (intro faithful_clean) simp
  qed
  ultimately show ?thesis by blast
qed

lemma CreateInstallationToken_nil_run:
  assumes "CreateInstallationToken d n E owner [] permissions s = Some (r, s')"
  shows "\<exists>evs. pureSteps E s s' evs \<and> faithful evs r"
  using assms
proof (cases rule: CreateInstallationToken_nil_cases)
  case (failed f)
  from getInstallationID_run[OF failed(1)] obtain evs where
    p: "pureSteps E s s' evs" and fa: "faithful evs (Inl f :: fault + int64)" by blast
  from faithful_Inl[OF fa] have "faithful evs r" unfolding failed(2) .
  with p show ?thesis by blast
next
  case (requested x s1)
  from getInstallationID_run[OF requested(1)] obtain evs1 where
    p1: "pureSteps E s s1 evs1" and f1: "faithful evs1 (Inr x :: fault + int64)" by blast
  from requestToken_run[OF requested(2)] obtain evs2 where
    p2: "pureSteps E s1 s' evs2" and f2: "faithful evs2 r" by blast
  from pureSteps_trans[OF p1 p2] faithful_append[OF faithful_Inr[OF f1] f2]
  show ?thesis by blast
qed

lemma pureSteps_steps: "pureSteps E s s' evs \<Longrightarrow> steps E s s' evs"
  by (simp add: pureSteps_def)

lemma steps_tick: "steps E s (tick E s) [NowEv (Now E (trace s))]"
  using pureSteps_tick by (rule pureSteps_steps)

lemma steps_trace: "steps E s (s\<lparr>trace := trace s @ evs\<rparr>) evs \<longleftrightarrow> answered E (trace s) evs"
  by (auto simp: steps_def wellFormed_def)

lemma steps_heap: "steps E s s' evs \<Longrightarrow> steps E s (s'\<lparr>heap := h\<rparr>) evs"
  by (auto simp: steps_def wellFormed_def)

lemma updateRepositories_run:
  assumes "updateRepositories d n E owner s = Some (r, s')"
  shows "\<exists>evs. steps E s s' evs \<and> faithful evs r"
  using assms
proof (cases rule: updateRepositories_cases)
  case nil
  then show ?thesis using steps_refl[of E s] faithful_clean[of "[]" r] by auto
next
  case (fresh i)
  then show ?thesis
    using steps_tick[of E s] faithful_clean[of "[NowEv (Now E (trace s))]" r] by auto
next
  case (token_failed i f d')
  from CreateInstallationToken_nil_run[OF token_failed(5)] obtain evs where
    p: "pureSteps E (tick E s) s' evs" and fa: "faithful evs (Inl f :: fault + InstallationToken)"
    by blast
  have "faithful ([NowEv (Now E (trace s))] @ evs) r"
    unfolding token_failed(4) by (rule faithful_append[OF _ faithful_Inl[OF fa]]) simp
  with steps_trans[OF steps_tick pureSteps_steps[OF p]] show ?thesis by blast
next
  case (list_failed i f d' token s2)
  from CreateInstallationToken_nil_run[OF list_failed(5)] obtain evs1 where
    p: "pureSteps E (tick E s) s2 evs1" and fa: "faithful evs1 (Inr token :: fault + InstallationToken)"
    by blast
  from listReposLoop_Inl[OF list_failed(6)] obtain evs opts' err where
    s': "s' = s2\<lparr>trace := trace s2 @ evs @ [ListReposEv (GetToken token) opts' (Inl err)]\<rparr>"
    and f: "f = Raised err"
    and ans: "answered E (trace s2) (evs @ [ListReposEv (GetToken token) opts' (Inl err)])"
    and nf: "\<forall>ev\<in>set evs. failure ev = None"
    by blast
  let ?evs2 = "evs @ [ListReposEv (GetToken token) opts' (Inl err)]"
  have st2: "steps E s2 s' ?evs2" unfolding s' using ans by (simp only: steps_trace)
  have "faithful ?evs2 r" unfolding list_failed(4) f by (rule faithful_last[OF nf]) simp
  then have "faithful (evs1 @ ?evs2) r" by (rule faithful_append[OF faithful_Inr[OF fa]])
  then have "faithful ([NowEv (Now E (trace s))] @ evs1 @ ?evs2) r"
    by (rule faithful_append[rotated]) simp
  with steps_trans[OF steps_tick steps_trans[OF pureSteps_steps[OF p] st2]]
  show ?thesis by blast
next
  case (refreshed i d' token s2 repositories s3)
  from CreateInstallationToken_nil_run[OF refreshed(5)] obtain evs1 where
    p: "pureSteps E (tick E s) s2 evs1" and fa: "faithful evs1 (Inr token :: fault + InstallationToken)"
    by blast
  from listReposLoop_Inr[OF refreshed(6)] obtain evs where
    s3: "s3 = s2\<lparr>trace := trace s2 @ evs\<rparr>"
    and ans: "answered E (trace s2) evs"
    and nf: "\<forall>ev\<in>set evs. failure ev = None"
    by blast
  have st2: "steps E s2 s3 evs" unfolding s3 using ans by (simp only: steps_trace)
  let ?all = "[NowEv (Now E (trace s))] @ evs1 @ evs @ [NowEv (Now E (trace s3))]"
  have "steps E s (tick E s3) ?all"
    by (rule steps_trans[OF steps_tick steps_trans[OF pureSteps_steps[OF p]
          steps_trans[OF st2 steps_tick]]])
  then have "steps E s s' ?all" unfolding refreshed(7) by (rule steps_heap)
  moreover have "faithful ?all r"
    using faithful_Inr[OF fa] nf by (intro faithful_clean) auto
  ultimately show ?thesis by blast
qed

lemma getRepositoryID_run:
  assumes "getRepositoryID d n E owner repo s = Some (r, s')"
  shows "\<exists>evs. steps E s s' evs \<and> faithful evs r"
  using assms
proof (cases rule: getRepositoryID_cases)
  case (failed f)
  from updateRepositories_run[OF failed(1)] obtain evs where
    p: "steps E s s' evs" and fa: "faithful evs (Inl f :: fault + unit)" by blast
  from faithful_Inl[OF fa] have "faithful evs r" unfolding failed(2) .
  with p show ?thesis by blast
next
  case (found x)
  from updateRepositories_run[OF found(1)] obtain evs where
    p: "steps E s s' evs" and fa: "faithful evs (Inr () :: fault + unit)" by blast
  from faithful_clean[OF faithful_Inr[OF fa]] have "faithful evs r" .
  with p show ?thesis by blast
next
  case notfound
  from updateRepositories_run[OF notfound(1)] obtain evs where
    p: "steps E s s' evs" and fa: "faithful evs (Inr () :: fault + unit)" by blast
  from faithful_clean[OF faithful_Inr[OF fa]] have "faithful evs r" .
  with p show ?thesis by blast
qed

lemma resolveRepositories_run:
  "resolveRepositories d n E owner repos ids s = Some (r, s') \<Longrightarrow>
   \<exists>evs. steps E s s' evs \<and> faithful evs r"
proof (induction repos arbitrary: ids s)
  case Nil
  then have "s' = s" by simp
  then show ?case using steps_refl[of E s] faithful_clean[of "[]" r] by auto
next
  case (Cons repo repos)
  from Cons.prems show ?case
  proof (cases rule: resolveRepositories_Cons_cases)
    case (failed f)
    from getRepositoryID_run[OF failed(1)] obtain evs where
      p: "steps E s s' evs" and fa: "faithful evs (Inl f :: fault + int64)" by blast
    from faithful_Inl[OF fa] have "faithful evs r" unfolding failed(2) .
    with p show ?thesis by blast
  next
    case (continue x s1)
    from getRepositoryID_run[OF continue(1)] obtain evs1 where
      p1: "steps E s s1 evs1" and f1: "faithful evs1 (Inr x :: fault + int64)" by blast
    from Cons.IH[OF continue(2)] obtain evs2 where
      p2: "steps E s1 s' evs2" and f2: "faithful evs2 r" by blast
    from steps_trans[OF p1 p2] faithful_append[OF faithful_Inr[OF f1] f2]
    show ?thesis by blast
  qed
qed

lemma CreateInstallationToken_run:
  assumes "CreateInstallationToken d n E owner repos permissions s = Some (r, s')"
  shows "\<exists>evs. steps E s s' evs \<and> faithful evs r"
  using assms
proof (cases rule: CreateInstallationToken_cases)
  case (no_installation f)
  from getInstallationID_run[OF no_installation(1)] obtain evs where
    p: "pureSteps E s s' evs" and fa: "faithful evs (Inl f :: fault + int64)" by blast
  from faithful_Inl[OF fa] have "faithful evs r" unfolding no_installation(2) .
  with pureSteps_steps[OF p] show ?thesis by blast
next
  case (no_repository x s1 f)
  from getInstallationID_run[OF no_repository(1)] obtain evs1 where
    p1: "pureSteps E s s1 evs1" and f1: "faithful evs1 (Inr x :: fault + int64)" by blast
  from resolveRepositories_run[OF no_repository(2)] obtain evs2 where
    p2: "steps E s1 s' evs2" and f2: "faithful evs2 (Inl f :: fault + int64 list)" by blast
  from faithful_Inl[OF f2] have "faithful evs2 r" unfolding no_repository(3) .
  from steps_trans[OF pureSteps_steps[OF p1] p2] faithful_append[OF faithful_Inr[OF f1] this]
  show ?thesis by blast
next
  case (requested x s1 ids s2)
  from getInstallationID_run[OF requested(1)] obtain evs1 where
    p1: "pureSteps E s s1 evs1" and f1: "faithful evs1 (Inr x :: fault + int64)" by blast
  from resolveRepositories_run[OF requested(2)] obtain evs2 where
    p2: "steps E s1 s2 evs2" and f2: "faithful evs2 (Inr ids :: fault + int64 list)" by blast
  from requestToken_run[OF requested(3)] obtain evs3 where
    p3: "pureSteps E s2 s' evs3" and f3: "faithful evs3 r" by blast
  from steps_trans[OF pureSteps_steps[OF p1] steps_trans[OF p2 pureSteps_steps[OF p3]]]
    faithful_append[OF faithful_Inr[OF f1] faithful_append[OF faithful_Inr[OF f2] f3]]
  show ?thesis by blast
qed

subsection \<open>Remote failures\<close>

lemmas env_defs = failingEnv_def pagedEnv_def brokenEnv_def expiredState_def

lemma ToLower_Beta: "ToLower ''Beta'' = ''beta''"
  by code_simp

lemma ToLower_Gamma: "ToLower ''Gamma'' = ''gamma''"
  by code_simp

text \<open>C7, as stated, fails for the listings: when the second page of installations fails
  with the error \<open>boom\<close>, \<open>updateInstallations\<close> returns that very error, with nothing
  added to it.\<close>

theorem list_error_unannotated_counterexample:
  "failure (last (trace (snd (the (updateInstallations (Suc (Suc 0)) failingEnv newState)))))
     = Some (RemoteError ''boom'')
   \<and> map_option fst (updateInstallations (Suc (Suc 0)) failingEnv newState)
     = Some (Inl (Raised (RemoteError ''boom'')))
   \<and> Error (RemoteError ''boom'') = ''boom''"
  by (simp add: run_defs scenario_defs env_defs)

text \<open>C7, amended. In every call of \<open>updateInstallations\<close>, \<open>updateRepositories\<close> and
  \<open>CreateInstallationToken\<close> a remote call that fails is the last event of the call (no
  retry, no further remote call), and the call returns the error propagated from it: the
  error of a listing as it is, the error of a token request as a new error whose message is
  \<open>failed to create token: \<close> followed by its message. No other error takes its
  place.\<close>

theorem remote_failure_propagation:
  "(updateInstallations n E s = Some (r, s') \<longrightarrow>
      (\<exists>evs. trace s' = trace s @ evs \<and> answered E (trace s) evs \<and> faithful evs r))
   \<and> (updateRepositories d1 n1 E1 owner1 t = Some (r1, t') \<longrightarrow>
      (\<exists>evs. trace t' = trace t @ evs \<and> answered E1 (trace t) evs \<and> faithful evs r1))
   \<and> (CreateInstallationToken d2 n2 E2 owner2 repos permissions u = Some (r2, u') \<longrightarrow>
      (\<exists>evs. trace u' = trace u @ evs \<and> answered E2 (trace u) evs \<and> faithful evs r2))"
proof (intro conjI impI)
  assume "updateInstallations n E s = Some (r, s')"
  from updateInstallations_run[OF this]
  show "\<exists>evs. trace s' = trace s @ evs \<and> answered E (trace s) evs \<and> faithful evs r"
    unfolding pureSteps_def steps_def by blast
next
  assume "updateRepositories d1 n1 E1 owner1 t = Some (r1, t')"
  from updateRepositories_run[OF this]
  show "\<exists>evs. trace t' = trace t @ evs \<and> answered E1 (trace t) evs \<and> faithful evs r1"
    unfolding steps_def by blast
next
  assume "CreateInstallationToken d2 n2 E2 owner2 repos permissions u = Some (r2, u')"
  from CreateInstallationToken_run[OF this]
  show "\<exists>evs. trace u' = trace u @ evs \<and> answered E2 (trace u) evs \<and> faithful evs r2"
    unfolding steps_def by blast
qed

theorem remote_failure_propagation_witness:
  "(\<exists>s' evs. updateInstallations (Suc (Suc 0)) failingEnv newState
        = Some (Inl (Raised (RemoteError ''boom'')), s')
      \<and> trace s' = trace newState @ evs \<and> faithful evs (Inl (Raised (RemoteError ''boom'')) :: fault + unit))
   \<and> (\<exists>t' evs. updateRepositories (Suc 0) (Suc (Suc 0)) brokenEnv ''acme'' expiredState
        = Some (Inl (Raised (RemoteError ''down'')), t')
      \<and> trace t' = trace expiredState @ evs \<and> faithful evs (Inl (Raised (RemoteError ''down'')) :: fault + unit))
   \<and> (\<exists>u' evs. CreateInstallationToken (Suc 0) (Suc 0) failingEnv ''acme'' [''repoA''] None cachedState
        = Some (Inl (Raised (Errorf ''failed to create token: denied'')), u')
      \<and> trace u' = trace cachedState @ evs
      \<and> faithful evs (Inl (Raised (Errorf ''failed to create token: denied'')) :: fault + InstallationToken))"
proof -
  obtain s' where a: "updateInstallations (Suc (Suc 0)) failingEnv newState
        = Some (Inl (Raised (RemoteError ''boom'')), s')"
    by (simp add: run_defs scenario_defs env_defs)
  obtain t' where b: "updateRepositories (Suc 0) (Suc (Suc 0)) brokenEnv ''acme'' expiredState
        = Some (Inl (Raised (RemoteError ''down'')), t')"
    by (simp add: run_defs scenario_defs env_defs ToLower_Beta ToLower_Gamma)
  obtain u' where c: "CreateInstallationToken (Suc 0) (Suc 0) failingEnv ''acme'' [''repoA''] None cachedState
        = Some (Inl (Raised (Errorf ''failed to create token: denied'')), u')"
    by (simp add: run_defs scenario_defs env_defs)
  from remote_failure_propagation[of "Suc (Suc 0)" failingEnv newState
      "Inl (Raised (RemoteError ''boom''))" s'
      "Suc 0" "Suc (Suc 0)" brokenEnv "''acme''" expiredState "Inl (Raised (RemoteError ''down''))" t'
      "Suc 0" "Suc 0" failingEnv "''acme''" "[''repoA'']" None cachedState
      "Inl (Raised (Errorf ''failed to create token: denied''))" u'] a b c
  show ?thesis by blast
qed

subsection \<open>Calls with no repository name\<close>

text \<open>C10. A call of \<open>CreateInstallationToken\<close> with no repository name lists no
  repositories and writes no installation object: every object allocated before the call,
  so every installation of the cache before the call, has the \<open>Repositories\<close> and the
  \<open>RepositoriesUpdatedAt\<close> it had (and the same \<open>ID\<close> and \<open>Owner\<close>). Of the fields of
  \<open>App\<close> only \<open>installs\<close> and \<open>installsUpdatedAt\<close> can differ after the call.\<close>

theorem nil_repos_frame:
  assumes "CreateInstallationToken d n E owner [] permissions s = Some (r, s')"
  shows "(\<exists>evs. trace s' = trace s @ evs \<and> (\<forall>ev\<in>set evs. \<not> listsRepos ev))
         \<and> (\<forall>p<nxt s. heap s' p = heap s p)
         \<and> (wellFormed s \<longrightarrow> (\<forall>p\<in>set (installs (app s)). heap s' p = heap s p))
         \<and> updateInterval (app s') = updateInterval (app s)"
proof -
  from CreateInstallationToken_nil_run[OF assms] obtain evs where
    "pureSteps E s s' evs" by blast
  then show ?thesis
    unfolding pureSteps_def steps_def wellFormed_def by blast
qed

theorem nil_repos_frame_witness:
  "wellFormed expiredState
   \<and> (\<exists>s'. CreateInstallationToken 0 (Suc 0) scenarioEnv ''acme'' [] None expiredState
          = Some (Inr \<lparr>GetToken = ''v1.token''\<rparr>, s')
        \<and> trace s' =
            [NowEv (100 * minute),
             ListInstallationsEv \<lparr>Page = 0, PerPage = 10\<rparr>
               (Inr ([\<lparr>GetID = 7, GetLogin = ''Acme''\<rparr>], \<lparr>NextPage = 0\<rparr>)),
             NowEv (100 * minute + 2),
             CreateInstallationTokenEv 7 \<lparr>RepositoryIDs = [], Permissions = None\<rparr>
               (Inr \<lparr>GetToken = ''v1.token''\<rparr>)]
        \<and> installs (app s') = [1]
        \<and> (\<forall>p\<in>set (installs (app expiredState)). heap s' p = heap expiredState p))"
proof -
  have w: "wellFormed expiredState"
    by (simp add: wellFormed_def expiredState_def)
  obtain s' where c: "CreateInstallationToken 0 (Suc 0) scenarioEnv ''acme'' [] None expiredState
          = Some (Inr \<lparr>GetToken = ''v1.token''\<rparr>, s')"
    and t: "trace s' =
            [NowEv (100 * minute),
             ListInstallationsEv \<lparr>Page = 0, PerPage = 10\<rparr>
               (Inr ([\<lparr>GetID = 7, GetLogin = ''Acme''\<rparr>], \<lparr>NextPage = 0\<rparr>)),
             NowEv (100 * minute + 2),
             CreateInstallationTokenEv 7 \<lparr>RepositoryIDs = [], Permissions = None\<rparr>
               (Inr \<lparr>GetToken = ''v1.token''\<rparr>)]"
    and i: "installs (app s') = [1]"
    by (simp add: run_defs scenario_defs expiredState_def)
  from nil_repos_frame[OF c] w c t i show ?thesis by blast
qed

subsection \<open>All or nothing\<close>

lemma updateInstallations_Inl:
  assumes "updateInstallations n E s = Some (Inl f, s')"
  shows "app s' = app s \<and> (\<forall>p<nxt s. heap s' p = heap s p)
         \<and> (\<exists>evs opts err. drop (length (trace s)) (trace s')
                 = evs @ [ListInstallationsEv opts (Inl err)]
               \<and> f = Raised err \<and> (\<forall>ev\<in>set evs. failure ev = None))"
  using assms
proof (cases rule: updateInstallations_cases)
  case fresh
  then show ?thesis by simp
next
  case (failed g)
  from listInstallationsLoop_Inl[OF failed(3)] obtain evs opts' err where
    tr: "trace s' = trace (tick E s) @ evs @ [ListInstallationsEv opts' (Inl err)]"
    and f: "g = Raised err"
    and nf: "\<forall>ev\<in>set evs. failure ev = None"
    and app: "app s' = app (tick E s)"
    and old: "\<forall>p<nxt (tick E s). heap s' p = heap (tick E s) p"
    by blast
  have "drop (length (trace s)) (trace s')
          = (NowEv (Now E (trace s)) # evs) @ [ListInstallationsEv opts' (Inl err)]"
    using tr by simp
  moreover have "\<forall>ev\<in>set (NowEv (Now E (trace s)) # evs). failure ev = None"
    using nf by simp
  ultimately show ?thesis using f failed(2) app old by auto
next
  case (refreshed newInstalls s2)
  then show ?thesis by simp
qed

lemma updateInstallations_Inr:
  assumes "updateInstallations n E s = Some (Inr x, s')"
  shows "\<forall>ev\<in>set (drop (length (trace s)) (trace s')). failure ev = None"
proof -
  from updateInstallations_run[OF assms] obtain evs where
    "pureSteps E s s' evs" "faithful evs (Inr x :: fault + unit)" by blast
  then show ?thesis
    using faithful_Inr[of evs x] unfolding pureSteps_def steps_def by simp
qed

lemma updateInstallations_swap:
  assumes "stale E s" and "updateInstallations n E s = Some (Inr x, s')"
  shows "trace s' \<noteq> [] \<and> last (trace s') = NowEv (installsUpdatedAt (app s'))"
  using assms(2)
proof (cases rule: updateInstallations_cases)
  case fresh
  with assms(1) show ?thesis by simp
next
  case (failed f)
  then show ?thesis by simp
next
  case (refreshed newInstalls s2)
  then show ?thesis by simp
qed

lemma updateRepositories_Inl:
  assumes "updateRepositories d n E owner s = Some (Inl f, s')"
  shows "(\<forall>p<nxt s. heap s' p = heap s p)
         \<and> (\<forall>ev\<in>set (drop (length (trace s)) (trace s')). \<forall>err.
               listsRepos ev \<longrightarrow> failure ev = Some err \<longrightarrow> f = Raised err)"
  using assms
proof (cases rule: updateRepositories_cases)
  case nil
  then show ?thesis by simp
next
  case (fresh i)
  then show ?thesis by simp
next
  case (token_failed i g d')
  from CreateInstallationToken_nil_run[OF token_failed(5)] obtain evs where
    p: "pureSteps E (tick E s) s' evs" by blast
  then have "drop (length (trace s)) (trace s') = NowEv (Now E (trace s)) # evs"
    unfolding pureSteps_def steps_def by simp
  with p show ?thesis unfolding pureSteps_def steps_def by auto
next
  case (list_failed i g d' token s2)
  from CreateInstallationToken_nil_run[OF list_failed(5)] obtain evs1 where
    p: "pureSteps E (tick E s) s2 evs1"
    and fa: "faithful evs1 (Inr token :: fault + InstallationToken)" by blast
  from listReposLoop_Inl[OF list_failed(6)] obtain evs opts' err where
    s': "s' = s2\<lparr>trace := trace s2 @ evs @ [ListReposEv (GetToken token) opts' (Inl err)]\<rparr>"
    and f: "g = Raised err"
    and nf: "\<forall>ev\<in>set evs. failure ev = None"
    by blast
  have tr: "drop (length (trace s)) (trace s')
          = NowEv (Now E (trace s)) # evs1 @ evs @ [ListReposEv (GetToken token) opts' (Inl err)]"
    using p s' unfolding pureSteps_def steps_def by simp
  have hp: "\<forall>p<nxt s. heap s' p = heap s p"
    using p s' unfolding pureSteps_def steps_def by simp
  have "\<forall>ev\<in>set (drop (length (trace s)) (trace s')). \<forall>err'.
               listsRepos ev \<longrightarrow> failure ev = Some err' \<longrightarrow> f = Raised err'"
    unfolding tr using faithful_Inr[OF fa] nf f list_failed(4) by auto
  with hp show ?thesis by blast
qed simp

lemma updateRepositories_Inr:
  assumes "updateRepositories d n E owner s = Some (Inr x, s')"
  shows "\<forall>ev\<in>set (drop (length (trace s)) (trace s')). failure ev = None"
proof -
  from updateRepositories_run[OF assms] obtain evs where
    "steps E s s' evs" "faithful evs (Inr x :: fault + unit)" by blast
  then show ?thesis
    using faithful_Inr[of evs x] unfolding steps_def by simp
qed

lemma pureSteps_fetchedRepositories:
  "pureSteps E s s' evs \<Longrightarrow> fetchedRepositories evs = []"
proof -
  have "\<forall>ev\<in>set evs. \<not> listsRepos ev \<Longrightarrow> fetchedRepositories evs = []" for evs
  proof (induction evs)
    case Nil
    show ?case by simp
  next
    case (Cons ev evs)
    then show ?case by (cases ev) (auto split: sum.splits prod.splits)
  qed
  then show "pureSteps E s s' evs \<Longrightarrow> fetchedRepositories evs = []"
    unfolding pureSteps_def by blast
qed

lemma updateRepositories_swap:
  assumes "updateRepositories d n E owner s = Some (Inr x, s')"
    and "scanInstallations (heap s) (installs (app s)) owner None = Some i"
    and "staleRepositories E s i"
  shows "Repositories (heap s' i)
           = map repositoryOf (fetchedRepositories (drop (length (trace s)) (trace s')))
         \<and> trace s' \<noteq> [] \<and> last (trace s') = NowEv (RepositoriesUpdatedAt (heap s' i))
         \<and> (\<forall>p<nxt s. p \<noteq> i \<longrightarrow> heap s' p = heap s p)"
  using assms(1)
proof (cases rule: updateRepositories_cases)
  case nil
  then show ?thesis by simp
next
  case (fresh j)
  with assms(2,3) show ?thesis by simp
next
  case (token_failed j f d')
  then show ?thesis by simp
next
  case (list_failed j f d' token s2)
  then show ?thesis by simp
next
  case (refreshed j d' token s2 repositories s3)
  from refreshed(1) assms(2) have j: "j = i" by simp
  from CreateInstallationToken_nil_run[OF refreshed(5)] obtain evs1 where
    p: "pureSteps E (tick E s) s2 evs1" by blast
  from listReposLoop_Inr[OF refreshed(6)] obtain evs where
    s3: "s3 = s2\<lparr>trace := trace s2 @ evs\<rparr>"
    and res: "repositories = [] @ map repositoryOf (fetchedRepositories evs)"
    by blast
  have tr: "drop (length (trace s)) (trace s')
          = NowEv (Now E (trace s)) # evs1 @ evs @ [NowEv (Now E (trace s3))]"
    using p s3 refreshed(7) unfolding pureSteps_def steps_def by simp
  have "fetchedRepositories (drop (length (trace s)) (trace s')) = fetchedRepositories evs"
    unfolding tr using pureSteps_fetchedRepositories[OF p] by simp
  moreover have "\<forall>p<nxt s. p \<noteq> i \<longrightarrow> heap s' p = heap s p"
    using p s3 refreshed(7) j unfolding pureSteps_def steps_def by simp
  ultimately show ?thesis using refreshed(7) res j by simp
qed

text \<open>C2. A refresh of the installations in which a page fails returns the error of that
  page and leaves \<open>installs\<close>, \<open>installsUpdatedAt\<close> and every allocated object as they
  were; a refresh that succeeds has no failed call, and sets \<open>installs\<close> to the fetched
  installations and \<open>installsUpdatedAt\<close> to the clock reading that ends the call. A
  refresh of the repositories in which a page fails returns the error of that page and
  leaves every allocated object, so the repositories and the timestamp of the
  installation, as they were; one that succeeds has no failed call, sets the repositories
  of the installation to the fetched ones and its timestamp to the clock reading that ends
  the call, and writes no other allocated object.\<close>

theorem refresh_all_or_nothing:
  "(updateInstallations n E s = Some (r, s') \<longrightarrow>
      (\<exists>ev\<in>set (drop (length (trace s)) (trace s')). failure ev = Some err) \<longrightarrow>
      r = Inl (Raised err) \<and> app s' = app s \<and> (\<forall>p<nxt s. heap s' p = heap s p))
   \<and> (updateInstallations n E s = Some (Inr (), s') \<longrightarrow> stale E s \<longrightarrow>
      (\<forall>ev\<in>set (drop (length (trace s)) (trace s')). failure ev = None)
      \<and> map (heap s') (installs (app s'))
          = map installationOf (fetchedInstallations (drop (length (trace s)) (trace s')))
      \<and> trace s' \<noteq> [] \<and> last (trace s') = NowEv (installsUpdatedAt (app s')))
   \<and> (updateRepositories d n1 E1 owner t = Some (r1, t') \<longrightarrow>
      (\<exists>ev\<in>set (drop (length (trace t)) (trace t')). listsRepos ev \<and> failure ev = Some err1) \<longrightarrow>
      r1 = Inl (Raised err1) \<and> (\<forall>p<nxt t. heap t' p = heap t p))
   \<and> (updateRepositories d n1 E1 owner t = Some (Inr (), t') \<longrightarrow>
      scanInstallations (heap t) (installs (app t)) owner None = Some i \<longrightarrow>
      staleRepositories E1 t i \<longrightarrow>
      (\<forall>ev\<in>set (drop (length (trace t)) (trace t')). failure ev = None)
      \<and> Repositories (heap t' i)
          = map repositoryOf (fetchedRepositories (drop (length (trace t)) (trace t')))
      \<and> trace t' \<noteq> [] \<and> last (trace t') = NowEv (RepositoriesUpdatedAt (heap t' i))
      \<and> (\<forall>p<nxt t. p \<noteq> i \<longrightarrow> heap t' p = heap t p))"
proof -
  have c1: "r = Inl (Raised err) \<and> app s' = app s \<and> (\<forall>p<nxt s. heap s' p = heap s p)"
    if u: "updateInstallations n E s = Some (r, s')"
      and e: "\<exists>ev\<in>set (drop (length (trace s)) (trace s')). failure ev = Some err"
  proof (cases r)
    case (Inr x)
    with updateInstallations_Inr[of n E s x s'] u e show ?thesis by auto
  next
    case (Inl f)
    from updateInstallations_Inl[OF u[unfolded Inl]] obtain evs opts err' where
      a: "app s' = app s" "\<forall>p<nxt s. heap s' p = heap s p"
      and tr: "drop (length (trace s)) (trace s') = evs @ [ListInstallationsEv opts (Inl err')]"
      and f: "f = Raised err'" and nf: "\<forall>ev\<in>set evs. failure ev = None"
      by blast
    from e tr nf have "err' = err" by auto
    with a f Inl show ?thesis by simp
  qed
  have c2: "(\<forall>ev\<in>set (drop (length (trace s)) (trace s')). failure ev = None)
      \<and> map (heap s') (installs (app s'))
          = map installationOf (fetchedInstallations (drop (length (trace s)) (trace s')))
      \<and> trace s' \<noteq> [] \<and> last (trace s') = NowEv (installsUpdatedAt (app s'))"
    if u: "updateInstallations n E s = Some (Inr (), s')" and st: "stale E s"
    using updateInstallations_Inr[OF u] updateInstallations_refreshed[OF st u]
      updateInstallations_swap[OF st u]
    by blast
  have c3: "r1 = Inl (Raised err1) \<and> (\<forall>p<nxt t. heap t' p = heap t p)"
    if u: "updateRepositories d n1 E1 owner t = Some (r1, t')"
      and e: "\<exists>ev\<in>set (drop (length (trace t)) (trace t')). listsRepos ev \<and> failure ev = Some err1"
  proof (cases r1)
    case (Inr x)
    with updateRepositories_Inr[of d n1 E1 owner t x t'] u e show ?thesis by auto
  next
    case (Inl f)
    from updateRepositories_Inl[OF u[unfolded Inl]] e Inl show ?thesis by blast
  qed
  have c4: "(\<forall>ev\<in>set (drop (length (trace t)) (trace t')). failure ev = None)
      \<and> Repositories (heap t' i)
          = map repositoryOf (fetchedRepositories (drop (length (trace t)) (trace t')))
      \<and> trace t' \<noteq> [] \<and> last (trace t') = NowEv (RepositoriesUpdatedAt (heap t' i))
      \<and> (\<forall>p<nxt t. p \<noteq> i \<longrightarrow> heap t' p = heap t p)"
    if u: "updateRepositories d n1 E1 owner t = Some (Inr (), t')"
      and sc: "scanInstallations (heap t) (installs (app t)) owner None = Some i"
      and st: "staleRepositories E1 t i"
    using updateRepositories_Inr[OF u] updateRepositories_swap[OF u sc st]
    by blast
  show ?thesis
    apply (intro conjI)
       apply (intro impI, erule (1) c1)
      apply (intro impI, erule (1) c2)
     apply (intro impI, erule (1) c3)
    apply (intro impI, erule (2) c4)
    done
qed

theorem refresh_all_or_nothing_witness:
  "(\<exists>s'. updateInstallations (Suc (Suc 0)) failingEnv newState
          = Some (Inl (Raised (RemoteError ''boom'')), s')
        \<and> app s' = app newState)
   \<and> (\<exists>s'. updateInstallations (Suc (Suc 0)) pagedEnv newState = Some (Inr (), s')
        \<and> stale pagedEnv newState
        \<and> map (heap s') (installs (app s'))
            = map installationOf [\<lparr>GetID = 7, GetLogin = ''Acme''\<rparr>,
                \<lparr>GetID = 8, GetLogin = ''Beta''\<rparr>, \<lparr>GetID = 9, GetLogin = ''Gamma''\<rparr>]
        \<and> last (trace s') = NowEv (installsUpdatedAt (app s')))
   \<and> (\<exists>t'. updateRepositories (Suc 0) (Suc (Suc 0)) brokenEnv ''acme'' reposExpiredState
          = Some (Inl (Raised (RemoteError ''down'')), t')
        \<and> heap t' 0 = heap reposExpiredState 0)
   \<and> (\<exists>t'. updateRepositories (Suc 0) (Suc (Suc 0)) pagedEnv ''acme'' reposExpiredState
          = Some (Inr (), t')
        \<and> scanInstallations (heap reposExpiredState) (installs (app reposExpiredState))
              ''acme'' None = Some 0
        \<and> staleRepositories pagedEnv reposExpiredState 0
        \<and> Repositories (heap t' 0)
            = map repositoryOf [\<lparr>GetRepoID = 100, GetName = ''infra''\<rparr>,
                \<lparr>GetRepoID = 101, GetName = ''web''\<rparr>, \<lparr>GetRepoID = 102, GetName = ''docs''\<rparr>]
        \<and> last (trace t') = NowEv (RepositoriesUpdatedAt (heap t' 0)))"
proof -
  obtain s1 where a: "updateInstallations (Suc (Suc 0)) failingEnv newState
          = Some (Inl (Raised (RemoteError ''boom'')), s1)"
    and a': "\<exists>ev\<in>set (drop (length (trace newState)) (trace s1)).
               failure ev = Some (RemoteError ''boom'')"
    by (simp add: run_defs scenario_defs env_defs)
  obtain s2 where b: "updateInstallations (Suc (Suc 0)) pagedEnv newState = Some (Inr (), s2)"
    and b': "fetchedInstallations (drop (length (trace newState)) (trace s2))
              = [\<lparr>GetID = 7, GetLogin = ''Acme''\<rparr>,
                \<lparr>GetID = 8, GetLogin = ''Beta''\<rparr>, \<lparr>GetID = 9, GetLogin = ''Gamma''\<rparr>]"
    by (simp add: run_defs scenario_defs env_defs ToLower_Beta ToLower_Gamma)
  have bs: "stale pagedEnv newState"
    by (simp add: stale_def scenario_defs env_defs)
  obtain t1 where c: "updateRepositories (Suc 0) (Suc (Suc 0)) brokenEnv ''acme'' reposExpiredState
          = Some (Inl (Raised (RemoteError ''down'')), t1)"
    and c': "\<exists>ev\<in>set (drop (length (trace reposExpiredState)) (trace t1)).
               listsRepos ev \<and> failure ev = Some (RemoteError ''down'')"
    by (simp add: run_defs scenario_defs env_defs reposExpiredState_def)
  obtain t2 where d: "updateRepositories (Suc 0) (Suc (Suc 0)) pagedEnv ''acme'' reposExpiredState
          = Some (Inr (), t2)"
    and d': "fetchedRepositories (drop (length (trace reposExpiredState)) (trace t2))
              = [\<lparr>GetRepoID = 100, GetName = ''infra''\<rparr>,
                \<lparr>GetRepoID = 101, GetName = ''web''\<rparr>, \<lparr>GetRepoID = 102, GetName = ''docs''\<rparr>]"
    by (simp add: run_defs scenario_defs env_defs reposExpiredState_def)
  have dsc: "scanInstallations (heap reposExpiredState) (installs (app reposExpiredState))
              ''acme'' None = Some 0"
    by (simp add: reposExpiredState_def)
  have dst: "staleRepositories pagedEnv reposExpiredState 0"
    by (simp add: staleRepositories_def reposExpiredState_def scenario_defs env_defs)
  have n0: "0 < nxt reposExpiredState" by (simp add: reposExpiredState_def)
  from refresh_all_or_nothing[of "Suc (Suc 0)" failingEnv newState
      "Inl (Raised (RemoteError ''boom''))" s1 "RemoteError ''boom''"
      "Suc 0" "Suc (Suc 0)" brokenEnv "''acme''" reposExpiredState
      "Inl (Raised (RemoteError ''down''))" t1 "RemoteError ''down''"] a a' c c' n0
  have f: "app s1 = app newState" "heap t1 0 = heap reposExpiredState 0" by blast+
  from refresh_all_or_nothing[of "Suc (Suc 0)" pagedEnv newState _ s2 _
      "Suc 0" "Suc (Suc 0)" pagedEnv "''acme''" reposExpiredState _ t2 _ 0] b bs d dsc dst
  have g: "map (heap s2) (installs (app s2))
          = map installationOf (fetchedInstallations (drop (length (trace newState)) (trace s2)))"
      "last (trace s2) = NowEv (installsUpdatedAt (app s2))"
      "Repositories (heap t2 0)
          = map repositoryOf (fetchedRepositories (drop (length (trace reposExpiredState)) (trace t2)))"
      "last (trace t2) = NowEv (RepositoriesUpdatedAt (heap t2 0))"
    by blast+
  from a b c d f g bs dsc dst show ?thesis
    unfolding b' d' by blast
qed

subsection \<open>Pagination\<close>

lemma fetchedInstallations_concat: "fetchedInstallations evs = concat (installationPages evs)"
  by (induction evs) (auto split: event.splits sum.splits prod.splits)

lemma fetchedRepositories_concat: "fetchedRepositories evs = concat (repositoryPages evs)"
  by (induction evs) (auto split: event.splits sum.splits prod.splits)

lemma not_listsRepos_fetched:
  "\<forall>ev\<in>set evs. \<not> listsRepos ev \<Longrightarrow> fetchedRepositories evs = []"
proof (induction evs)
  case Nil
  show ?case by simp
next
  case (Cons ev evs)
  then show ?case by (cases ev) (auto split: sum.splits prod.splits)
qed

lemma updateInstallations_pages:
  assumes "stale E s" and "updateInstallations n E s = Some (Inr (), s')"
  shows "\<exists>evs. drop (length (trace s)) (trace s')
              = NowEv (Now E (trace s)) # evs @ [NowEv (installsUpdatedAt (app s'))]
           \<and> installationsRun \<lparr>Page = 0, PerPage = 10\<rparr> evs \<and> length evs \<le> n
           \<and> map (heap s') (installs (app s'))
               = map installationOf (concat (installationPages evs))
           \<and> length (installs (app s')) = sum_list (map length (installationPages evs))"
  using assms(2)
proof (cases rule: updateInstallations_cases)
  case fresh
  with assms(1) show ?thesis by simp
next
  case (failed f)
  then show ?thesis by simp
next
  case (refreshed newInstalls s2)
  from listInstallationsLoop_Inr[OF refreshed(3)] obtain evs where
    tr: "trace s2 = trace (tick E s) @ evs"
    and run: "installationsRun \<lparr>Page = 0, PerPage = 10\<rparr> evs"
    and len: "length evs \<le> n"
    and nx: "nxt s2 = nxt (tick E s) + length (fetchedInstallations evs)"
    and res: "newInstalls = [] @ [nxt (tick E s) ..< nxt s2]"
    and new: "map (heap s2) [nxt (tick E s) ..< nxt s2] = map installationOf (fetchedInstallations evs)"
    by blast
  have d: "drop (length (trace s)) (trace s')
              = NowEv (Now E (trace s)) # evs @ [NowEv (installsUpdatedAt (app s'))]"
    using refreshed(4) tr by simp
  have m: "map (heap s') (installs (app s')) = map installationOf (concat (installationPages evs))"
    using refreshed(4) res new by (simp add: fetchedInstallations_concat)
  have "length (installs (app s')) = length (fetchedInstallations evs)"
    using refreshed(4) res nx by simp
  then have l: "length (installs (app s')) = sum_list (map length (installationPages evs))"
    by (simp add: fetchedInstallations_concat length_concat)
  from d run len m l show ?thesis by blast
qed

lemma updateInstallations_total:
  assumes "stale E s" and "installationsRun \<lparr>Page = 0, PerPage = 10\<rparr> evs"
    and "answered E (trace (tick E s)) evs" and "length evs \<le> n"
  shows "\<exists>s'. updateInstallations n E s = Some (Inr (), s')
           \<and> trace s' = trace (tick E s) @ evs @ [NowEv (installsUpdatedAt (app s'))]"
proof -
  from listInstallationsLoop_total[OF assms(2,3,4), of "[]"] obtain res s2 where
    l: "listInstallationsLoop n E \<lparr>Page = 0, PerPage = 10\<rparr> [] (tick E s) = Some (Inr res, s2)"
    and tr: "trace s2 = trace (tick E s) @ evs" by blast
  let ?s' = "(tick E s2)\<lparr>app := (app s2)\<lparr>installs := res, installsUpdatedAt := Now E (trace s2)\<rparr>\<rparr>"
  have "updateInstallations n E s = Some (Inr (), ?s')"
    by (simp add: updateInstallations_stale[OF assms(1)] l)
  moreover have "trace ?s' = trace (tick E s) @ evs @ [NowEv (installsUpdatedAt (app ?s'))]"
    using tr by simp
  ultimately show ?thesis by blast
qed

lemma updateRepositories_pages:
  assumes "updateRepositories d n E owner s = Some (Inr (), s')"
    and "scanInstallations (heap s) (installs (app s)) owner None = Some i"
    and "staleRepositories E s i"
  shows "\<exists>evs1 evs token. drop (length (trace s)) (trace s')
              = NowEv (Now E (trace s)) # evs1 @ evs @ [NowEv (RepositoriesUpdatedAt (heap s' i))]
           \<and> (\<forall>ev\<in>set evs1. \<not> listsRepos ev)
           \<and> reposRun token \<lparr>Page = 0, PerPage = 100\<rparr> evs \<and> length evs \<le> n
           \<and> Repositories (heap s' i) = map repositoryOf (concat (repositoryPages evs))
           \<and> length (Repositories (heap s' i)) = sum_list (map length (repositoryPages evs))"
  using assms(1)
proof (cases rule: updateRepositories_cases)
  case nil
  then show ?thesis by simp
next
  case (fresh j)
  with assms(2,3) show ?thesis by simp
next
  case (token_failed j f d')
  then show ?thesis by simp
next
  case (list_failed j f d' token s2)
  then show ?thesis by simp
next
  case (refreshed j d' token s2 repositories s3)
  from refreshed(1) assms(2) have j: "j = i" by simp
  from CreateInstallationToken_nil_run[OF refreshed(5)] obtain evs1 where
    p: "pureSteps E (tick E s) s2 evs1" by blast
  from listReposLoop_Inr[OF refreshed(6)] obtain evs where
    s3: "s3 = s2\<lparr>trace := trace s2 @ evs\<rparr>"
    and run: "reposRun (GetToken token) \<lparr>Page = 0, PerPage = 100\<rparr> evs"
    and len: "length evs \<le> n"
    and res: "repositories = [] @ map repositoryOf (fetchedRepositories evs)"
    by blast
  have tr: "drop (length (trace s)) (trace s')
          = NowEv (Now E (trace s)) # evs1 @ evs @ [NowEv (RepositoriesUpdatedAt (heap s' i))]"
    using p s3 refreshed(7) j unfolding pureSteps_def steps_def by simp
  have nr: "\<forall>ev\<in>set evs1. \<not> listsRepos ev" using p unfolding pureSteps_def by simp
  have m: "Repositories (heap s' i) = map repositoryOf (concat (repositoryPages evs))"
    using refreshed(7) res j by (simp add: fetchedRepositories_concat)
  then have l: "length (Repositories (heap s' i)) = sum_list (map length (repositoryPages evs))"
    by (simp add: length_concat)
  from tr nr run len m l show ?thesis by blast
qed

lemma updateRepositories_total:
  assumes "scanInstallations (heap s) (installs (app s)) owner None = Some i"
    and "staleRepositories E s i"
    and "CreateInstallationToken d n E owner [] (Some []) (tick E s) = Some (Inr token, s2)"
    and "reposRun (GetToken token) \<lparr>Page = 0, PerPage = 100\<rparr> evs"
    and "answered E (trace s2) evs" and "length evs \<le> n"
  shows "\<exists>s'. updateRepositories (Suc d) n E owner s = Some (Inr (), s')
           \<and> trace s' = trace s2 @ evs @ [NowEv (RepositoriesUpdatedAt (heap s' i))]"
proof -
  from listReposLoop_total[OF assms(4,5,6), of "[]"] obtain res where
    l: "listReposLoop n E (GetToken token) \<lparr>Page = 0, PerPage = 100\<rparr> [] s2
          = Some (Inr res, s2\<lparr>trace := trace s2 @ evs\<rparr>)" by blast
  let ?s3 = "s2\<lparr>trace := trace s2 @ evs\<rparr>"
  let ?s' = "(tick E ?s3)\<lparr>heap := (heap ?s3)
                (i := (heap ?s3 i)\<lparr>Repositories := res,
                       RepositoriesUpdatedAt := Now E (trace ?s3)\<rparr>)\<rparr>"
  have "updateRepositories (Suc d) n E owner s = Some (Inr (), ?s')"
    by (simp add: updateRepositories_stale[OF assms(1,2)] assms(3) l)
  moreover have "trace ?s' = trace s2 @ evs @ [NowEv (RepositoriesUpdatedAt (heap ?s' i))]"
    by simp
  ultimately show ?thesis by blast
qed

text \<open>Against a remote side that announces a next page for ever the loop does not
  return, whatever the bound.\<close>

lemma endless_listing: "listInstallationsLoop n endlessEnv opts acc s = None"
  by (induction n arbitrary: opts acc s)
     (simp_all add: listInstallationsLoop.simps endlessEnv_def Let_def)

text \<open>C8. A refresh of the installations that succeeds is one complete listing between
  two clock readings: the requests have the page size 10, the first asks for the page 0,
  each further one for the \<open>NextPage\<close> of the answer before, and the last answer is the only
  one with \<open>NextPage\<close> zero; the new list holds the installations of the pages in the
  order they were fetched, and its length is the sum of the lengths of the pages. When the
  remote side answers such a listing of at most \<open>n\<close> pages, the refresh returns, having
  made exactly these calls. The same holds for a refresh of the repositories, with the page
  size 100, after the events of the token request.\<close>

theorem pagination_complete:
  "(stale E s \<longrightarrow> updateInstallations n E s = Some (Inr (), s') \<longrightarrow>
      (\<exists>evs. drop (length (trace s)) (trace s')
              = NowEv (Now E (trace s)) # evs @ [NowEv (installsUpdatedAt (app s'))]
           \<and> installationsRun \<lparr>Page = 0, PerPage = 10\<rparr> evs \<and> length evs \<le> n
           \<and> map (heap s') (installs (app s'))
               = map installationOf (concat (installationPages evs))
           \<and> length (installs (app s')) = sum_list (map length (installationPages evs))))
   \<and> (stale E s \<longrightarrow> installationsRun \<lparr>Page = 0, PerPage = 10\<rparr> evs0 \<longrightarrow>
      answered E (trace (tick E s)) evs0 \<longrightarrow> length evs0 \<le> n \<longrightarrow>
      (\<exists>s'. updateInstallations n E s = Some (Inr (), s')
           \<and> trace s' = trace (tick E s) @ evs0 @ [NowEv (installsUpdatedAt (app s'))]))
   \<and> (updateRepositories d n1 E1 owner t = Some (Inr (), t') \<longrightarrow>
      scanInstallations (heap t) (installs (app t)) owner None = Some i \<longrightarrow>
      staleRepositories E1 t i \<longrightarrow>
      (\<exists>evs1 evs token. drop (length (trace t)) (trace t')
              = NowEv (Now E1 (trace t)) # evs1 @ evs @ [NowEv (RepositoriesUpdatedAt (heap t' i))]
           \<and> (\<forall>ev\<in>set evs1. \<not> listsRepos ev)
           \<and> reposRun token \<lparr>Page = 0, PerPage = 100\<rparr> evs \<and> length evs \<le> n1
           \<and> Repositories (heap t' i) = map repositoryOf (concat (repositoryPages evs))
           \<and> length (Repositories (heap t' i)) = sum_list (map length (repositoryPages evs))))
   \<and> (scanInstallations (heap t) (installs (app t)) owner None = Some i \<longrightarrow>
      staleRepositories E1 t i \<longrightarrow>
      CreateInstallationToken d n1 E1 owner [] (Some []) (tick E1 t) = Some (Inr token1, t2) \<longrightarrow>
      reposRun (GetToken token1) \<lparr>Page = 0, PerPage = 100\<rparr> evs2 \<longrightarrow>
      answered E1 (trace t2) evs2 \<longrightarrow> length evs2 \<le> n1 \<longrightarrow>
      (\<exists>t'. updateRepositories (Suc d) n1 E1 owner t = Some (Inr (), t')
           \<and> trace t' = trace t2 @ evs2 @ [NowEv (RepositoriesUpdatedAt (heap t' i))]))"
  apply (intro conjI)
     apply (intro impI, erule (1) updateInstallations_pages)
    apply (intro impI, erule (3) updateInstallations_total)
   apply (intro impI, erule (2) updateRepositories_pages)
  apply (intro impI, erule (5) updateRepositories_total)
  done

theorem pagination_complete_witness:
  "stale pagedEnv newState
   \<and> (\<exists>s'. updateInstallations (Suc (Suc 0)) pagedEnv newState = Some (Inr (), s')
        \<and> trace s' =
            [NowEv (100 * minute),
             ListInstallationsEv \<lparr>Page = 0, PerPage = 10\<rparr>
               (Inr ([\<lparr>GetID = 7, GetLogin = ''Acme''\<rparr>, \<lparr>GetID = 8, GetLogin = ''Beta''\<rparr>],
                     \<lparr>NextPage = 2\<rparr>)),
             ListInstallationsEv \<lparr>Page = 2, PerPage = 10\<rparr>
               (Inr ([\<lparr>GetID = 9, GetLogin = ''Gamma''\<rparr>], \<lparr>NextPage = 0\<rparr>)),
             NowEv (installsUpdatedAt (app s'))]
        \<and> map (heap s') (installs (app s'))
            = map installationOf [\<lparr>GetID = 7, GetLogin = ''Acme''\<rparr>,
                \<lparr>GetID = 8, GetLogin = ''Beta''\<rparr>, \<lparr>GetID = 9, GetLogin = ''Gamma''\<rparr>]
        \<and> length (installs (app s')) = 3)
   \<and> scanInstallations (heap reposExpiredState) (installs (app reposExpiredState)) ''acme'' None
       = Some 0
   \<and> staleRepositories pagedEnv reposExpiredState 0
   \<and> (\<exists>t'. updateRepositories (Suc (Suc 0)) (Suc (Suc 0)) pagedEnv ''acme'' reposExpiredState
          = Some (Inr (), t')
        \<and> Repositories (heap t' 0)
            = map repositoryOf [\<lparr>GetRepoID = 100, GetName = ''infra''\<rparr>,
                \<lparr>GetRepoID = 101, GetName = ''web''\<rparr>, \<lparr>GetRepoID = 102, GetName = ''docs''\<rparr>]
        \<and> length (Repositories (heap t' 0)) = 3)"
proof -
  let ?e1 = "ListInstallationsEv \<lparr>Page = 0, PerPage = 10\<rparr>
               (Inr ([\<lparr>GetID = 7, GetLogin = ''Acme''\<rparr>, \<lparr>GetID = 8, GetLogin = ''Beta''\<rparr>],
                     \<lparr>NextPage = 2\<rparr>))"
  let ?e2 = "ListInstallationsEv \<lparr>Page = 2, PerPage = 10\<rparr>
               (Inr ([\<lparr>GetID = 9, GetLogin = ''Gamma''\<rparr>], \<lparr>NextPage = 0\<rparr>))"
  let ?r1 = "ListReposEv ''v1.token'' \<lparr>Page = 0, PerPage = 100\<rparr>
               (Inr ([\<lparr>GetRepoID = 100, GetName = ''infra''\<rparr>,
                      \<lparr>GetRepoID = 101, GetName = ''web''\<rparr>], \<lparr>NextPage = 3\<rparr>))"
  let ?r2 = "ListReposEv ''v1.token'' \<lparr>Page = 3, PerPage = 100\<rparr>
               (Inr ([\<lparr>GetRepoID = 102, GetName = ''docs''\<rparr>], \<lparr>NextPage = 0\<rparr>))"
  have st: "stale pagedEnv newState"
    by (simp add: stale_def scenario_defs env_defs)
  have run: "installationsRun \<lparr>Page = 0, PerPage = 10\<rparr> [?e1, ?e2]" by simp
  have ans: "answered pagedEnv (trace (tick pagedEnv newState)) [?e1, ?e2]"
    by (simp add: pagedEnv_def)
  have sc: "scanInstallations (heap reposExpiredState) (installs (app reposExpiredState))
              ''acme'' None = Some 0"
    by (simp add: reposExpiredState_def)
  have sr: "staleRepositories pagedEnv reposExpiredState 0"
    by (simp add: staleRepositories_def reposExpiredState_def scenario_defs env_defs)
  obtain t2 where b: "CreateInstallationToken (Suc 0) (Suc (Suc 0)) pagedEnv ''acme'' [] (Some [])
      (tick pagedEnv reposExpiredState) = Some (Inr \<lparr>GetToken = ''v1.token''\<rparr>, t2)"
    and tt: "fetchedRepositories (trace t2) = []"
    by (simp add: run_defs scenario_defs env_defs reposExpiredState_def tick_def)
  have rrun: "reposRun (GetToken \<lparr>GetToken = ''v1.token''\<rparr>) \<lparr>Page = 0, PerPage = 100\<rparr> [?r1, ?r2]"
    by simp
  have rans: "answered pagedEnv (trace t2) [?r1, ?r2]"
    by (simp add: pagedEnv_def)
  note thm1 = pagination_complete[of pagedEnv newState "Suc (Suc 0)" newState "[?e1, ?e2]"
      "Suc 0" "Suc (Suc 0)" pagedEnv "''acme''" reposExpiredState reposExpiredState 0
      "\<lparr>GetToken = ''v1.token''\<rparr>" t2 "[?r1, ?r2]"]
  from thm1 st run ans obtain s' where
    u: "updateInstallations (Suc (Suc 0)) pagedEnv newState = Some (Inr (), s')"
    and tr: "trace s' = trace (tick pagedEnv newState) @ [?e1, ?e2] @ [NowEv (installsUpdatedAt (app s'))]"
    by auto
  from thm1 sc sr b rrun rans obtain t' where
    v: "updateRepositories (Suc (Suc 0)) (Suc (Suc 0)) pagedEnv ''acme'' reposExpiredState
          = Some (Inr (), t')"
    and tr': "trace t' = trace t2 @ [?r1, ?r2] @ [NowEv (RepositoriesUpdatedAt (heap t' 0))]"
    by auto
  note thm2 = pagination_complete[of pagedEnv newState "Suc (Suc 0)" s' "[]"
      "Suc (Suc 0)" "Suc (Suc 0)" pagedEnv "''acme''" reposExpiredState t' 0]
  from thm2 st u obtain evs where
    d: "drop (length (trace newState)) (trace s')
              = NowEv (Now pagedEnv (trace newState)) # evs @ [NowEv (installsUpdatedAt (app s'))]"
    and m: "map (heap s') (installs (app s')) = map installationOf (concat (installationPages evs))"
    and l: "length (installs (app s')) = sum_list (map length (installationPages evs))"
    by blast
  from d tr have evs: "evs = [?e1, ?e2]" by (simp add: newState_def)
  from thm2 v sc sr obtain evs1 evs2 token where
    d': "drop (length (trace reposExpiredState)) (trace t')
              = NowEv (Now pagedEnv (trace reposExpiredState)) # evs1 @ evs2
                  @ [NowEv (RepositoriesUpdatedAt (heap t' 0))]"
    and nr: "\<forall>ev\<in>set evs1. \<not> listsRepos ev"
    and rr: "reposRun token \<lparr>Page = 0, PerPage = 100\<rparr> evs2"
    and m': "Repositories (heap t' 0) = map repositoryOf (concat (repositoryPages evs2))"
    and l': "length (Repositories (heap t' 0)) = sum_list (map length (repositoryPages evs2))"
    by blast
  have e0: "trace reposExpiredState = []" by (simp add: reposExpiredState_def)
  have "fetchedRepositories (trace t') = fetchedRepositories evs2"
    using d' nr unfolding e0 by (simp add: not_listsRepos_fetched)
  moreover have "fetchedRepositories (trace t') =
      [\<lparr>GetRepoID = 100, GetName = ''infra''\<rparr>,
       \<lparr>GetRepoID = 101, GetName = ''web''\<rparr>, \<lparr>GetRepoID = 102, GetName = ''docs''\<rparr>]"
    unfolding tr' by (simp add: tt)
  ultimately have "concat (repositoryPages evs2) =
      [\<lparr>GetRepoID = 100, GetName = ''infra''\<rparr>,
       \<lparr>GetRepoID = 101, GetName = ''web''\<rparr>, \<lparr>GetRepoID = 102, GetName = ''docs''\<rparr>]"
    by (simp add: fetchedRepositories_concat)
  with m' have m2: "Repositories (heap t' 0)
            = map repositoryOf [\<lparr>GetRepoID = 100, GetName = ''infra''\<rparr>,
                \<lparr>GetRepoID = 101, GetName = ''web''\<rparr>, \<lparr>GetRepoID = 102, GetName = ''docs''\<rparr>]"
    by simp
  from st sc sr u v tr m l m2 show ?thesis
    unfolding evs by (auto simp: scenario_defs pagedEnv_def)
qed

subsection \<open>Throttling\<close>

lemma listInstallationsLoop_starts:
  "listInstallationsLoop n E opts acc s = Some (r, s') \<Longrightarrow>
   length (filter startsInstallationsListing (drop (length (trace s)) (trace s')))
     = (if Page opts = 0 then 1 else 0)"
proof (induction n arbitrary: opts acc s)
  case 0
  then show ?case by (simp add: listInstallationsLoop.simps)
next
  case (Suc n)
  let ?r = "ListInstallations E (trace s) opts"
  let ?ev = "ListInstallationsEv opts ?r"
  let ?s1 = "s\<lparr>trace := trace s @ [?ev]\<rparr>"
  show ?case
  proof (cases ?r)
    case (Inl err)
    with Suc.prems have "s' = ?s1"
      by (auto simp: listInstallationsLoop.simps Let_def)
    then show ?thesis by simp
  next
    case (Inr pr)
    obtain list response where pr: "pr = (list, response)" by (cases pr)
    let ?s2 = "snd (appendInstallations list acc ?s1)"
    let ?acc2 = "acc @ [nxt s ..< nxt s + length list]"
    show ?thesis
    proof (cases "NextPage response = 0")
      case True
      with Suc.prems Inr pr have "s' = ?s2"
        by (auto simp: listInstallationsLoop.simps Let_def case_prod_beta)
      then show ?thesis by simp
    next
      case False
      with Suc.prems Inr pr
      have rec: "listInstallationsLoop n E (opts\<lparr>Page := NextPage response\<rparr>) ?acc2 ?s2 = Some (r, s')"
        by (auto simp: listInstallationsLoop.simps Let_def case_prod_beta)
      from listInstallationsLoop_events[OF rec] obtain evs where
        tr: "trace s' = trace ?s2 @ evs" by blast
      from Suc.IH[OF rec] False tr
      have "length (filter startsInstallationsListing evs) = 0" by simp
      then show ?thesis using tr by simp
    qed
  qed
qed

lemma listReposLoop_trace:
  "listReposLoop n E token opts acc s = Some (r, s') \<Longrightarrow>
   \<exists>evs. s' = s\<lparr>trace := trace s @ evs\<rparr>"
proof (cases r)
  case (Inl f)
  assume "listReposLoop n E token opts acc s = Some (r, s')"
  from listReposLoop_Inl[OF this[unfolded Inl]] show ?thesis by blast
next
  case (Inr x)
  assume "listReposLoop n E token opts acc s = Some (r, s')"
  from listReposLoop_Inr[OF this[unfolded Inr]] show ?thesis by blast
qed

lemma listReposLoop_starts:
  "listReposLoop n E token opts acc s = Some (r, s') \<Longrightarrow>
   length (filter startsReposListing (drop (length (trace s)) (trace s')))
     = (if Page opts = 0 then 1 else 0)"
proof (induction n arbitrary: opts acc s)
  case 0
  then show ?case by (simp add: listReposLoop.simps)
next
  case (Suc n)
  let ?r = "ListRepos E (trace s) token opts"
  let ?ev = "ListReposEv token opts ?r"
  let ?s1 = "s\<lparr>trace := trace s @ [?ev]\<rparr>"
  show ?case
  proof (cases ?r)
    case (Inl err)
    with Suc.prems have "s' = ?s1"
      by (auto simp: listReposLoop.simps Let_def)
    then show ?thesis by simp
  next
    case (Inr pr)
    obtain list response where pr: "pr = (list, response)" by (cases pr)
    show ?thesis
    proof (cases "NextPage response = 0")
      case True
      with Suc.prems Inr pr have "s' = ?s1"
        by (auto simp: listReposLoop.simps Let_def)
      then show ?thesis by simp
    next
      case False
      with Suc.prems Inr pr
      have rec: "listReposLoop n E token (opts\<lparr>Page := NextPage response\<rparr>)
                   (appendRepositories list acc) ?s1 = Some (r, s')"
        by (auto simp: listReposLoop.simps Let_def)
      from listReposLoop_trace[OF rec] obtain evs where
        tr: "trace s' = trace ?s1 @ evs" by auto
      from Suc.IH[OF rec] False tr
      have "length (filter startsReposListing evs) = 0" by simp
      then show ?thesis using tr by simp
    qed
  qed
qed

lemma updateInstallations_starts:
  assumes "updateInstallations n E s = Some (r, s')"
  shows "length (filter startsInstallationsListing (drop (length (trace s)) (trace s')))
           = (if stale E s then 1 else 0)"
  using assms
proof (cases rule: updateInstallations_cases)
  case fresh
  then show ?thesis by simp
next
  case (failed f)
  from listInstallationsLoop_events[OF failed(3)] obtain evs where
    tr: "trace s' = trace (tick E s) @ evs" by blast
  from listInstallationsLoop_starts[OF failed(3)] tr failed(1) show ?thesis by simp
next
  case (refreshed newInstalls s2)
  from listInstallationsLoop_events[OF refreshed(3)] obtain evs where
    tr: "trace s2 = trace (tick E s) @ evs" by blast
  from listInstallationsLoop_starts[OF refreshed(3)] tr refreshed(1,4) show ?thesis by simp
qed

lemma not_listsRepos_starts:
  "\<forall>ev\<in>set evs. \<not> listsRepos ev \<Longrightarrow> filter startsReposListing evs = []"
proof (induction evs)
  case Nil
  show ?case by simp
next
  case (Cons ev evs)
  then show ?case by (cases ev) auto
qed

lemma updateRepositories_starts:
  assumes "updateRepositories d n E owner s = Some (r, s')"
  shows "length (filter startsReposListing (drop (length (trace s)) (trace s'))) \<le> 1
         \<and> (r = Inr () \<longrightarrow>
              scanInstallations (heap s) (installs (app s)) owner None = Some i \<longrightarrow>
              staleRepositories E s i \<longrightarrow>
              length (filter startsReposListing (drop (length (trace s)) (trace s'))) = 1)"
  using assms
proof (cases rule: updateRepositories_cases)
  case nil
  then show ?thesis by simp
next
  case (fresh j)
  then show ?thesis by auto
next
  case (token_failed j f d')
  from CreateInstallationToken_nil_run[OF token_failed(5)] obtain evs where
    p: "pureSteps E (tick E s) s' evs" by blast
  then have "drop (length (trace s)) (trace s') = NowEv (Now E (trace s)) # evs"
    unfolding pureSteps_def steps_def by simp
  moreover from p have "filter startsReposListing evs = []"
    unfolding pureSteps_def by (intro not_listsRepos_starts) simp
  ultimately show ?thesis using token_failed(4) by simp
next
  case (list_failed j f d' token s2)
  from CreateInstallationToken_nil_run[OF list_failed(5)] obtain evs1 where
    p: "pureSteps E (tick E s) s2 evs1" by blast
  from listReposLoop_trace[OF list_failed(6)] obtain evs where
    s': "s' = s2\<lparr>trace := trace s2 @ evs\<rparr>" by blast
  have tr: "drop (length (trace s)) (trace s') = NowEv (Now E (trace s)) # evs1 @ evs"
    using p s' unfolding pureSteps_def steps_def by simp
  from p have e1: "filter startsReposListing evs1 = []"
    unfolding pureSteps_def by (intro not_listsRepos_starts) simp
  from listReposLoop_starts[OF list_failed(6)] s'
  have "length (filter startsReposListing evs) = 1" by simp
  with tr e1 list_failed(4) show ?thesis by simp
next
  case (refreshed j d' token s2 repositories s3)
  from CreateInstallationToken_nil_run[OF refreshed(5)] obtain evs1 where
    p: "pureSteps E (tick E s) s2 evs1" by blast
  from listReposLoop_trace[OF refreshed(6)] obtain evs where
    s3: "s3 = s2\<lparr>trace := trace s2 @ evs\<rparr>" by blast
  have tr: "drop (length (trace s)) (trace s')
              = NowEv (Now E (trace s)) # evs1 @ evs @ [NowEv (Now E (trace s3))]"
    using p s3 refreshed(7) unfolding pureSteps_def steps_def by simp
  from p have e1: "filter startsReposListing evs1 = []"
    unfolding pureSteps_def by (intro not_listsRepos_starts) simp
  from listReposLoop_starts[OF refreshed(6)] s3
  have "length (filter startsReposListing evs) = 1" by simp
  with tr e1 show ?thesis by simp
qed

lemma getInstallationID_update:
  assumes "getInstallationID n E k s = Some (r, s')"
  shows "\<exists>r0. updateInstallations n E s = Some (r0, s')"
  using assms by (cases rule: getInstallationID_cases) auto

lemma updateInstallations_extends:
  assumes "updateInstallations n E s = Some (r, s')"
  shows "\<exists>evs. trace s' = trace s @ evs"
  using updateInstallations_run[OF assms] unfolding pureSteps_def steps_def by blast

text \<open>C3. A refresh is skipped exactly when the time of the last update plus the interval
  is later than the clock reading. Skipped, the call returns success with the state as it
  was and the clock reading as its only event. Not skipped, a refresh of the installations
  starts exactly one listing; a refresh of the repositories starts at most one, and exactly
  one when it succeeds. So of two resolutions of an installation, the second being within
  the interval of the update that the first left, at most one listing is started and the
  second makes no remote call; and a resolution after the interval has elapsed starts
  exactly one listing.\<close>

theorem refresh_throttling:
  "(installsUpdatedAt (app s) + updateInterval (app s) > Now E (trace s) \<longrightarrow>
      updateInstallations n E s = Some (Inr (), s\<lparr>trace := trace s @ [NowEv (Now E (trace s))]\<rparr>))
   \<and> (\<not> installsUpdatedAt (app s) + updateInterval (app s) > Now E (trace s) \<longrightarrow>
      updateInstallations n E s = Some (r, s') \<longrightarrow>
      length (filter startsInstallationsListing (drop (length (trace s)) (trace s'))) = 1)
   \<and> (scanInstallations (heap t) (installs (app t)) owner None = Some i \<longrightarrow>
      RepositoriesUpdatedAt (heap t i) + updateInterval (app t) > Now E1 (trace t) \<longrightarrow>
      updateRepositories d n1 E1 owner t
        = Some (Inr (), t\<lparr>trace := trace t @ [NowEv (Now E1 (trace t))]\<rparr>))
   \<and> (scanInstallations (heap t) (installs (app t)) owner None = Some i \<longrightarrow>
      \<not> RepositoriesUpdatedAt (heap t i) + updateInterval (app t) > Now E1 (trace t) \<longrightarrow>
      updateRepositories d n1 E1 owner t = Some (r1, t') \<longrightarrow>
      length (filter startsReposListing (drop (length (trace t)) (trace t'))) \<le> 1
      \<and> (r1 = Inr () \<longrightarrow>
           length (filter startsReposListing (drop (length (trace t)) (trace t'))) = 1))
   \<and> (getInstallationID n2 E2 k u = Some (r2, u1) \<longrightarrow>
      getInstallationID n2 E2 k' u1 = Some (r3, u2) \<longrightarrow>
      (if installsUpdatedAt (app u1) + updateInterval (app u1) > Now E2 (trace u1)
       then u2 = u1\<lparr>trace := trace u1 @ [NowEv (Now E2 (trace u1))]\<rparr>
          \<and> length (filter startsInstallationsListing (drop (length (trace u)) (trace u2))) \<le> 1
       else length (filter startsInstallationsListing (drop (length (trace u1)) (trace u2))) = 1))"
proof -
  have c1: "updateInstallations n E s = Some (Inr (), s\<lparr>trace := trace s @ [NowEv (Now E (trace s))]\<rparr>)"
    if "installsUpdatedAt (app s) + updateInterval (app s) > Now E (trace s)"
    using that updateInstallations_fresh[of E s n] by (simp add: stale_def tick_def)
  have c2: "length (filter startsInstallationsListing (drop (length (trace s)) (trace s'))) = 1"
    if "\<not> installsUpdatedAt (app s) + updateInterval (app s) > Now E (trace s)"
      and "updateInstallations n E s = Some (r, s')"
    using updateInstallations_starts[OF that(2)] that(1) by (simp add: stale_def)
  have c3: "updateRepositories d n1 E1 owner t
        = Some (Inr (), t\<lparr>trace := trace t @ [NowEv (Now E1 (trace t))]\<rparr>)"
    if "scanInstallations (heap t) (installs (app t)) owner None = Some i"
      and "RepositoriesUpdatedAt (heap t i) + updateInterval (app t) > Now E1 (trace t)"
    using updateRepositories_fresh[OF that(1), of E1 d n1] that(2)
    by (simp add: staleRepositories_def tick_def)
  have c4: "length (filter startsReposListing (drop (length (trace t)) (trace t'))) \<le> 1
      \<and> (r1 = Inr () \<longrightarrow>
           length (filter startsReposListing (drop (length (trace t)) (trace t'))) = 1)"
    if "scanInstallations (heap t) (installs (app t)) owner None = Some i"
      and "\<not> RepositoriesUpdatedAt (heap t i) + updateInterval (app t) > Now E1 (trace t)"
      and "updateRepositories d n1 E1 owner t = Some (r1, t')"
    using updateRepositories_starts[OF that(3), of i] that(1,2)
    by (simp add: staleRepositories_def)
  have c5: "if installsUpdatedAt (app u1) + updateInterval (app u1) > Now E2 (trace u1)
       then u2 = u1\<lparr>trace := trace u1 @ [NowEv (Now E2 (trace u1))]\<rparr>
          \<and> length (filter startsInstallationsListing (drop (length (trace u)) (trace u2))) \<le> 1
       else length (filter startsInstallationsListing (drop (length (trace u1)) (trace u2))) = 1"
    if g1: "getInstallationID n2 E2 k u = Some (r2, u1)"
      and g2: "getInstallationID n2 E2 k' u1 = Some (r3, u2)"
  proof -
    from getInstallationID_update[OF g1] obtain ra where
      a: "updateInstallations n2 E2 u = Some (ra, u1)" by blast
    from getInstallationID_update[OF g2] obtain rb where
      b: "updateInstallations n2 E2 u1 = Some (rb, u2)" by blast
    show ?thesis
    proof (cases "installsUpdatedAt (app u1) + updateInterval (app u1) > Now E2 (trace u1)")
      case True
      then have "\<not> stale E2 u1" by (simp add: stale_def)
      from b[unfolded updateInstallations_fresh[OF this]]
      have u2: "u2 = u1\<lparr>trace := trace u1 @ [NowEv (Now E2 (trace u1))]\<rparr>"
        by (simp add: tick_def)
      from updateInstallations_extends[OF a] obtain evs where
        tr: "trace u1 = trace u @ evs" by blast
      from updateInstallations_starts[OF a] tr
      have "length (filter startsInstallationsListing evs) \<le> 1" by (simp split: if_splits)
      then have "length (filter startsInstallationsListing (drop (length (trace u)) (trace u2))) \<le> 1"
        using u2 tr by simp
      with True u2 show ?thesis by simp
    next
      case False
      then have "stale E2 u1" by (simp add: stale_def)
      with updateInstallations_starts[OF b] False show ?thesis by simp
    qed
  qed
  show ?thesis
    apply (intro conjI)
        apply (intro impI, erule c1)
       apply (intro impI, erule (1) c2)
      apply (intro impI, erule (1) c3)
     apply (intro impI, erule (2) c4)
    apply (intro impI, erule (1) c5)
    done
qed

theorem refresh_throttling_witness:
  "installsUpdatedAt (app cachedState) + updateInterval (app cachedState)
     > Now scenarioEnv (trace cachedState)
   \<and> updateInstallations 0 scenarioEnv cachedState
       = Some (Inr (), cachedState\<lparr>trace := [NowEv (100 * minute)]\<rparr>)
   \<and> updateRepositories 0 0 scenarioEnv ''acme'' cachedState
       = Some (Inr (), cachedState\<lparr>trace := [NowEv (100 * minute)]\<rparr>)
   \<and> \<not> installsUpdatedAt (app newState) + updateInterval (app newState)
        > Now scenarioEnv (trace newState)
   \<and> (\<exists>s'. updateInstallations (Suc 0) scenarioEnv newState = Some (Inr (), s')
        \<and> length (filter startsInstallationsListing (drop (length (trace newState)) (trace s'))) = 1)
   \<and> (\<exists>t'. updateRepositories (Suc 0) (Suc 0) scenarioEnv ''acme'' reposExpiredState
          = Some (Inr (), t')
        \<and> length (filter startsReposListing (drop (length (trace reposExpiredState)) (trace t'))) = 1)
   \<and> (\<exists>u1 u2. getInstallationID (Suc 0) scenarioEnv ''acme'' newState = Some (Inr 7, u1)
        \<and> getInstallationID (Suc 0) scenarioEnv ''acme'' u1 = Some (Inr 7, u2)
        \<and> installsUpdatedAt (app u1) + updateInterval (app u1) > Now scenarioEnv (trace u1)
        \<and> u2 = u1\<lparr>trace := trace u1 @ [NowEv (Now scenarioEnv (trace u1))]\<rparr>
        \<and> length (filter startsInstallationsListing (drop (length (trace newState)) (trace u2))) \<le> 1)
   \<and> (\<exists>u1 u2. getInstallationID (Suc 0) slowClockEnv ''acme'' newState = Some (Inr 7, u1)
        \<and> getInstallationID (Suc 0) slowClockEnv ''acme'' u1 = Some (Inr 7, u2)
        \<and> \<not> installsUpdatedAt (app u1) + updateInterval (app u1) > Now slowClockEnv (trace u1)
        \<and> length (filter startsInstallationsListing (drop (length (trace u1)) (trace u2))) = 1)"
proof -
  have f1: "installsUpdatedAt (app cachedState) + updateInterval (app cachedState)
     > Now scenarioEnv (trace cachedState)"
    by (simp add: scenario_defs)
  have f2: "scanInstallations (heap cachedState) (installs (app cachedState)) ''acme'' None = Some 0"
    by (simp add: cachedState_def)
  have f3: "RepositoriesUpdatedAt (heap cachedState 0) + updateInterval (app cachedState)
     > Now scenarioEnv (trace cachedState)"
    by (simp add: scenario_defs)
  have tc: "trace cachedState = []" by (simp add: cachedState_def)
  have nc: "Now scenarioEnv [] = 100 * minute" by (simp add: scenarioEnv_def)
  obtain u1 u2 where g1: "getInstallationID (Suc 0) scenarioEnv ''acme'' newState = Some (Inr 7, u1)"
    and g2: "getInstallationID (Suc 0) scenarioEnv ''acme'' u1 = Some (Inr 7, u2)"
    and g3: "installsUpdatedAt (app u1) + updateInterval (app u1) > Now scenarioEnv (trace u1)"
    by (simp add: run_defs scenario_defs)
  note T = refresh_throttling[where s = cachedState and E = scenarioEnv and n = 0
      and t = cachedState and owner = "''acme''" and i = 0 and ?E1.0 = scenarioEnv and d = 0
      and ?n1.0 = 0 and ?n2.0 = "Suc 0" and ?E2.0 = scenarioEnv and k = "''acme''"
      and u = newState and ?r2.0 = "Inr 7" and ?u1.0 = u1 and k' = "''acme''"
      and ?r3.0 = "Inr 7" and ?u2.0 = u2]
  from T f1 have "updateInstallations 0 scenarioEnv cachedState
       = Some (Inr (), cachedState\<lparr>trace := trace cachedState
            @ [NowEv (Now scenarioEnv (trace cachedState))]\<rparr>)" by blast
  then have A1: "updateInstallations 0 scenarioEnv cachedState
       = Some (Inr (), cachedState\<lparr>trace := [NowEv (100 * minute)]\<rparr>)"
    by (simp add: tc nc)
  from T f2 f3 have "updateRepositories 0 0 scenarioEnv ''acme'' cachedState
       = Some (Inr (), cachedState\<lparr>trace := trace cachedState
            @ [NowEv (Now scenarioEnv (trace cachedState))]\<rparr>)" by blast
  then have A2: "updateRepositories 0 0 scenarioEnv ''acme'' cachedState
       = Some (Inr (), cachedState\<lparr>trace := [NowEv (100 * minute)]\<rparr>)"
    by (simp add: tc nc)
  from T g1 g2 have "if installsUpdatedAt (app u1) + updateInterval (app u1)
          > Now scenarioEnv (trace u1)
       then u2 = u1\<lparr>trace := trace u1 @ [NowEv (Now scenarioEnv (trace u1))]\<rparr>
          \<and> length (filter startsInstallationsListing (drop (length (trace newState)) (trace u2))) \<le> 1
       else length (filter startsInstallationsListing (drop (length (trace u1)) (trace u2))) = 1"
    by blast
  then have A3: "u2 = u1\<lparr>trace := trace u1 @ [NowEv (Now scenarioEnv (trace u1))]\<rparr>
          \<and> length (filter startsInstallationsListing (drop (length (trace newState)) (trace u2))) \<le> 1"
    unfolding if_P[OF g3] .
  note A = A1 A2 A3
  have h1: "\<not> installsUpdatedAt (app newState) + updateInterval (app newState)
        > Now scenarioEnv (trace newState)"
    by (simp add: scenario_defs)
  obtain s' where h2: "updateInstallations (Suc 0) scenarioEnv newState = Some (Inr (), s')"
    by (simp add: run_defs scenario_defs)
  have h3: "scanInstallations (heap reposExpiredState) (installs (app reposExpiredState))
              ''acme'' None = Some 0"
    by (simp add: reposExpiredState_def)
  have h4: "\<not> RepositoriesUpdatedAt (heap reposExpiredState 0) + updateInterval (app reposExpiredState)
     > Now scenarioEnv (trace reposExpiredState)"
    by (simp add: scenario_defs reposExpiredState_def)
  obtain t' where h5: "updateRepositories (Suc 0) (Suc 0) scenarioEnv ''acme'' reposExpiredState
          = Some (Inr (), t')"
    by (simp add: run_defs scenario_defs reposExpiredState_def)
  obtain v1 v2 where k1: "getInstallationID (Suc 0) slowClockEnv ''acme'' newState = Some (Inr 7, v1)"
    and k2: "getInstallationID (Suc 0) slowClockEnv ''acme'' v1 = Some (Inr 7, v2)"
    and k3: "\<not> installsUpdatedAt (app v1) + updateInterval (app v1) > Now slowClockEnv (trace v1)"
    by (simp add: run_defs scenario_defs slowClockEnv_def)
  note U = refresh_throttling[where s = newState and E = scenarioEnv and n = "Suc 0"
      and r = "Inr ()" and s' = s' and t = reposExpiredState and owner = "''acme''" and i = 0
      and ?E1.0 = scenarioEnv and d = "Suc 0" and ?n1.0 = "Suc 0" and ?r1.0 = "Inr ()"
      and t' = t' and ?n2.0 = "Suc 0" and ?E2.0 = slowClockEnv and k = "''acme''"
      and u = newState and ?r2.0 = "Inr 7" and ?u1.0 = v1 and k' = "''acme''"
      and ?r3.0 = "Inr 7" and ?u2.0 = v2]
  from U h1 h2
  have B1: "length (filter startsInstallationsListing (drop (length (trace newState)) (trace s'))) = 1"
    by blast
  from U h3 h4 h5
  have B2: "length (filter startsReposListing (drop (length (trace reposExpiredState)) (trace t'))) = 1"
    by blast
  from U k1 k2 have "if installsUpdatedAt (app v1) + updateInterval (app v1)
          > Now slowClockEnv (trace v1)
       then v2 = v1\<lparr>trace := trace v1 @ [NowEv (Now slowClockEnv (trace v1))]\<rparr>
          \<and> length (filter startsInstallationsListing (drop (length (trace newState)) (trace v2))) \<le> 1
       else length (filter startsInstallationsListing (drop (length (trace v1)) (trace v2))) = 1"
    by blast
  then have B3: "length (filter startsInstallationsListing (drop (length (trace v1)) (trace v2))) = 1"
    unfolding if_not_P[OF k3] .
  note B = B1 B2 B3
  from f1 A h1 h2 h5 B g1 g2 g3 k1 k2 k3 show ?thesis by blast
qed

subsection \<open>The order of the identities\<close>

lemma resolveRepositories_resolveEach:
  "resolveRepositories d n E owner repos ids s =
     (case resolveEach d n E owner repos s of
        None \<Rightarrow> None
      | Some (Inl err, s') \<Rightarrow> Some (Inl err, s')
      | Some (Inr xs, s') \<Rightarrow> Some (Inr (ids @ xs), s'))"
proof (induction repos arbitrary: ids s)
  case Nil
  show ?case by simp
next
  case (Cons repo repos)
  show ?case
  proof (cases "getRepositoryID d n E owner repo s")
    case None
    then show ?thesis by simp
  next
    case (Some a)
    obtain r s1 where a: "a = (r, s1)" by (cases a)
    show ?thesis
    proof (cases r)
      case (Inl f)
      with Some a show ?thesis by simp
    next
      case (Inr x)
      show ?thesis
      proof (cases "resolveEach d n E owner repos s1")
        case None
        with Some a Inr Cons.IH[of "ids @ [x]" s1] show ?thesis by simp
      next
        case rest: (Some b)
        obtain r2 s2 where b: "b = (r2, s2)" by (cases b)
        with Some a Inr rest Cons.IH[of "ids @ [x]" s1] show ?thesis
          by (cases r2) simp_all
      qed
    qed
  qed
qed

lemma resolveEach_positions:
  "resolveEach d n E owner repos s = Some (Inr ids, s') \<Longrightarrow>
   list_all2 (\<lambda>repo x. \<exists>sa sb. getRepositoryID d n E owner repo sa = Some (Inr x, sb)
                \<and> findRepositoryID (heap sb) (installs (app sb)) owner repo = Some x) repos ids"
proof (induction repos arbitrary: ids s)
  case Nil
  then show ?case by simp
next
  case (Cons repo repos)
  from Cons.prems obtain x s1 xs where
    g: "getRepositoryID d n E owner repo s = Some (Inr x, s1)"
    and r: "resolveEach d n E owner repos s1 = Some (Inr xs, s')"
    and ids: "ids = x # xs"
    by (auto split: option.splits sum.splits prod.splits)
  from g have "findRepositoryID (heap s1) (installs (app s1)) owner repo = Some x"
    by (cases rule: getRepositoryID_cases) simp_all
  with g Cons.IH[OF r] ids show ?case by auto
qed

lemma CreateInstallationToken_resolveEach:
  "CreateInstallationToken d n E owner repos permissions s =
     (case getInstallationID n E owner s of
        None \<Rightarrow> None
      | Some (Inl err, s1) \<Rightarrow> Some (Inl err, s1)
      | Some (Inr installationID, s1) \<Rightarrow>
          (case resolveEach d n E owner repos s1 of
             None \<Rightarrow> None
           | Some (Inl err, s2) \<Rightarrow> Some (Inl err, s2)
           | Some (Inr ids, s2) \<Rightarrow>
               requestToken E installationID
                 \<lparr>RepositoryIDs = ids, Permissions = permissions\<rparr> s2))"
proof (cases "getInstallationID n E owner s")
  case None
  then show ?thesis by (simp add: CreateInstallationToken.simps)
next
  case (Some a)
  obtain r s1 where a: "a = (r, s1)" by (cases a)
  show ?thesis
  proof (cases r)
    case (Inl f)
    with Some a show ?thesis by (simp add: CreateInstallationToken.simps)
  next
    case (Inr x)
    show ?thesis
    proof (cases "resolveEach d n E owner repos s1")
      case None
      with Some a Inr show ?thesis
        by (simp add: CreateInstallationToken.simps resolveRepositories_resolveEach)
    next
      case rest: (Some b)
      obtain r2 s2 where b: "b = (r2, s2)" by (cases b)
      with Some a Inr rest show ?thesis
        by (cases r2) (simp_all add: CreateInstallationToken.simps resolveRepositories_resolveEach)
    qed
  qed
qed

text \<open>C5. \<open>CreateInstallationToken\<close> is the resolution of the installation, then the
  resolution of each name in turn, then the token request with the identities found: an
  error of a resolution is returned with the state it left, so nothing is requested after
  it; the identities of the request are as many as the names, and the one at each position
  is what \<open>getRepositoryID\<close> found in the cache for the name at that position. With no
  name the request holds no identity.\<close>

theorem token_request_in_order:
  "CreateInstallationToken d n E owner repos permissions s =
     (case getInstallationID n E owner s of
        None \<Rightarrow> None
      | Some (Inl err, s1) \<Rightarrow> Some (Inl err, s1)
      | Some (Inr installationID, s1) \<Rightarrow>
          (case resolveEach d n E owner repos s1 of
             None \<Rightarrow> None
           | Some (Inl err, s2) \<Rightarrow> Some (Inl err, s2)
           | Some (Inr ids, s2) \<Rightarrow>
               requestToken E installationID
                 \<lparr>RepositoryIDs = ids, Permissions = permissions\<rparr> s2))
   \<and> (resolveEach d n E owner repos t = Some (Inr ids, t') \<longrightarrow>
        length ids = length repos
        \<and> list_all2 (\<lambda>repo x. \<exists>sa sb. getRepositoryID d n E owner repo sa = Some (Inr x, sb)
                \<and> findRepositoryID (heap sb) (installs (app sb)) owner repo = Some x) repos ids)
   \<and> (getInstallationID n E owner s = Some (Inr x, s1) \<longrightarrow>
        CreateInstallationToken d n E owner [] permissions s
          = requestToken E x \<lparr>RepositoryIDs = [], Permissions = permissions\<rparr> s1)"
proof -
  have b: "length ids = length repos
        \<and> list_all2 (\<lambda>repo x. \<exists>sa sb. getRepositoryID d n E owner repo sa = Some (Inr x, sb)
                \<and> findRepositoryID (heap sb) (installs (app sb)) owner repo = Some x) repos ids"
    if "resolveEach d n E owner repos t = Some (Inr ids, t')"
    using resolveEach_positions[OF that] by (auto dest: list_all2_lengthD)
  have c: "CreateInstallationToken d n E owner [] permissions s
          = requestToken E x \<lparr>RepositoryIDs = [], Permissions = permissions\<rparr> s1"
    if "getInstallationID n E owner s = Some (Inr x, s1)"
    using that by (simp add: CreateInstallationToken_nil)
  show ?thesis
    apply (intro conjI)
      apply (rule CreateInstallationToken_resolveEach)
     apply (intro impI, erule b)
    apply (intro impI, erule c)
    done
qed

theorem token_request_in_order_witness:
  "(\<exists>t'. resolveEach 0 0 scenarioEnv ''acme'' [''repoA'', ''repoB'', ''repoA''] cachedState
          = Some (Inr [1, 2, 1], t'))
   \<and> (\<exists>s'. CreateInstallationToken 0 0 scenarioEnv ''acme'' [''repoA'', ''repoB''] None cachedState
          = Some (Inr \<lparr>GetToken = ''v1.token''\<rparr>, s')
        \<and> last (trace s') = CreateInstallationTokenEv 42
             \<lparr>RepositoryIDs = [1, 2], Permissions = None\<rparr> (Inr \<lparr>GetToken = ''v1.token''\<rparr>))
   \<and> (\<exists>s'. CreateInstallationToken 0 0 scenarioEnv ''acme'' [''repoA'', ''ghost'', ''repoB''] None
            cachedState
          = Some (Inl (Raised (ErrInstallationNotFound ''acme/ghost'')), s')
        \<and> trace s' = [NowEv (100 * minute), NowEv (100 * minute + 1), NowEv (100 * minute + 2)])
   \<and> (\<exists>s'. CreateInstallationToken 0 0 scenarioEnv ''acme'' [] None cachedState
          = Some (Inr \<lparr>GetToken = ''v1.token''\<rparr>, s')
        \<and> last (trace s') = CreateInstallationTokenEv 42
             \<lparr>RepositoryIDs = [], Permissions = None\<rparr> (Inr \<lparr>GetToken = ''v1.token''\<rparr>))"
proof -
  obtain s1 where g: "getInstallationID 0 scenarioEnv ''acme'' cachedState = Some (Inr 42, s1)"
    and s1: "s1 = tick scenarioEnv cachedState"
    by (simp add: run_defs scenario_defs tick_def)
  obtain t' where r1: "resolveEach 0 0 scenarioEnv ''acme'' [''repoA'', ''repoB'', ''repoA''] cachedState
          = Some (Inr [1, 2, 1], t')"
    by (simp add: run_defs scenario_defs)
  obtain s2 where r2: "resolveEach 0 0 scenarioEnv ''acme'' [''repoA'', ''repoB''] s1
          = Some (Inr [1, 2], s2)"
    unfolding s1 by (simp add: run_defs scenario_defs tick_def)
  obtain s3 where r3: "resolveEach 0 0 scenarioEnv ''acme'' [''repoA'', ''ghost'', ''repoB''] s1
          = Some (Inl (Raised (ErrInstallationNotFound ''acme/ghost'')), s3)"
    and t3: "trace s3 = [NowEv (100 * minute), NowEv (100 * minute + 1), NowEv (100 * minute + 2)]"
    unfolding s1 by (simp add: run_defs scenario_defs tick_def)
  have q: "requestToken scenarioEnv 42 \<lparr>RepositoryIDs = ids, Permissions = None\<rparr> u
      = Some (Inr \<lparr>GetToken = ''v1.token''\<rparr>,
          u\<lparr>trace := trace u @ [CreateInstallationTokenEv 42
             \<lparr>RepositoryIDs = ids, Permissions = None\<rparr> (Inr \<lparr>GetToken = ''v1.token''\<rparr>)]\<rparr>)"
    for ids u
    by (simp add: requestToken_eq scenarioEnv_def)
  from token_request_in_order[of 0 0 scenarioEnv "''acme''" "[''repoA'', ''repoB'']" None cachedState
      cachedState "[]" cachedState 42 s1] g r2
  have A: "CreateInstallationToken 0 0 scenarioEnv ''acme'' [''repoA'', ''repoB''] None cachedState
      = requestToken scenarioEnv 42 \<lparr>RepositoryIDs = [1, 2], Permissions = None\<rparr> s2"
    and D: "CreateInstallationToken 0 0 scenarioEnv ''acme'' [] None cachedState
      = requestToken scenarioEnv 42 \<lparr>RepositoryIDs = [], Permissions = None\<rparr> s1"
    by simp_all
  from token_request_in_order[of 0 0 scenarioEnv "''acme''" "[''repoA'', ''ghost'', ''repoB'']" None
      cachedState cachedState "[]" cachedState 42 s1] g r3
  have B: "CreateInstallationToken 0 0 scenarioEnv ''acme'' [''repoA'', ''ghost'', ''repoB''] None
            cachedState
          = Some (Inl (Raised (ErrInstallationNotFound ''acme/ghost'')), s3)"
    by simp
  from token_request_in_order[of 0 0 scenarioEnv "''acme''" "[''repoA'', ''repoB'', ''repoA'']" None
      cachedState cachedState "[1, 2, 1]" t'] r1
  have C: "length [1, 2, 1 :: int64] = length [''repoA'', ''repoB'', ''repoA'']" by blast
  from r1 A B D t3 show ?thesis unfolding q by simp
qed

subsection \<open>The nil pointer, second part\<close>

lemma scanInstallations_mem:
  "scanInstallations h ps owner i0 = Some i \<Longrightarrow> i0 = Some i \<or> i \<in> set ps"
  by (induction ps arbitrary: i0) (auto split: if_splits)

lemma findRepositoryID_nonempty:
  "findRepositoryID h ps owner repo = Some x \<Longrightarrow> \<exists>p\<in>set ps. Repositories (h p) \<noteq> []"
proof (induction ps)
  case Nil
  then show ?case by simp
next
  case (Cons p ps)
  show ?case
  proof (cases "Repositories (h p) = []")
    case True
    with Cons show ?thesis by (auto split: if_splits)
  next
    case False
    then show ?thesis by simp
  qed
qed

lemma updateInstallations_list:
  assumes "updateInstallations n E s = Some (r, s')"
  shows "installs (app s') = installs (app s)
         \<or> (\<forall>p\<in>set (installs (app s')). nxt s \<le> p \<and> Repositories (heap s' p) = [])"
  using assms
proof (cases rule: updateInstallations_cases)
  case fresh
  then show ?thesis by simp
next
  case (failed f)
  from listInstallationsLoop_Inl[OF failed(3)] show ?thesis by auto
next
  case (refreshed newInstalls s2)
  from listInstallationsLoop_Inr[OF refreshed(3)] obtain evs where
    res: "newInstalls = [] @ [nxt (tick E s) ..< nxt s2]"
    and new: "map (heap s2) [nxt (tick E s) ..< nxt s2] = map installationOf (fetchedInstallations evs)"
    by blast
  have "\<forall>v\<in>set (map (heap s2) [nxt (tick E s) ..< nxt s2]). Repositories v = []"
    unfolding new by (auto simp: installationOf_def)
  then have "\<forall>p\<in>set newInstalls. nxt s \<le> p \<and> Repositories (heap s2 p) = []"
    using res by auto
  with refreshed(4) show ?thesis by simp
qed

lemma CreateInstallationToken_nil_list:
  assumes "CreateInstallationToken d n E owner [] permissions s = Some (r, s')"
  shows "installs (app s') = installs (app s)
         \<or> (\<forall>p\<in>set (installs (app s')). nxt s \<le> p \<and> Repositories (heap s' p) = [])"
  using assms
proof (cases rule: CreateInstallationToken_nil_cases)
  case (failed f)
  from getInstallationID_update[OF failed(1)] obtain r0 where
    "updateInstallations n E s = Some (r0, s')" by blast
  from updateInstallations_list[OF this] show ?thesis .
next
  case (requested x s1)
  from getInstallationID_update[OF requested(1)] obtain r0 where
    "updateInstallations n E s = Some (r0, s1)" by blast
  from updateInstallations_list[OF this] requested(2) show ?thesis
    by (auto simp: requestToken_eq)
qed

lemma updateRepositories_list:
  assumes "updateRepositories d n E owner s = Some (Inr x, s')" and "wellFormed s"
  shows "installs (app s') = installs (app s)
         \<or> (\<forall>p\<in>set (installs (app s')). Repositories (heap s' p) = [])"
  using assms(1)
proof (cases rule: updateRepositories_cases)
  case nil
  then show ?thesis by simp
next
  case (fresh i)
  then show ?thesis by simp
next
  case (token_failed i f d')
  then show ?thesis by simp
next
  case (list_failed i f d' token s2)
  then show ?thesis by simp
next
  case (refreshed i d' token s2 repositories s3)
  from scanInstallations_mem[OF refreshed(1)] assms(2) have i: "i < nxt s"
    by (auto simp: wellFormed_def)
  from listReposLoop_trace[OF refreshed(6)] obtain evs where
    s3: "s3 = s2\<lparr>trace := trace s2 @ evs\<rparr>" by blast
  from CreateInstallationToken_nil_list[OF refreshed(5)]
  have "installs (app s2) = installs (app s)
         \<or> (\<forall>p\<in>set (installs (app s2)). nxt s \<le> p \<and> Repositories (heap s2 p) = [])"
    by simp
  then show ?thesis
  proof
    assume "installs (app s2) = installs (app s)"
    with refreshed(7) s3 show ?thesis by simp
  next
    assume a: "\<forall>p\<in>set (installs (app s2)). nxt s \<le> p \<and> Repositories (heap s2 p) = []"
    have "\<forall>p\<in>set (installs (app s')). Repositories (heap s' p) = []"
    proof
      fix p assume "p \<in> set (installs (app s'))"
      with refreshed(7) s3 have p: "p \<in> set (installs (app s2))" by simp
      with a i have "p \<noteq> i" by auto
      with a p refreshed(7) s3 show "Repositories (heap s' p) = []" by simp
    qed
    then show ?thesis by blast
  qed
qed

lemma getRepositoryID_keeps_list:
  assumes "getRepositoryID d n E owner repo s = Some (Inr x, s')" and "wellFormed s"
  shows "installs (app s') = installs (app s)"
  using assms(1)
proof (cases rule: getRepositoryID_cases)
  case (failed f)
  then show ?thesis by simp
next
  case (found y)
  from findRepositoryID_nonempty[OF found(2)] updateRepositories_list[OF found(1) assms(2)]
  show ?thesis by blast
next
  case notfound
  then show ?thesis by simp
qed

text \<open>C9. \<open>updateRepositories\<close> reads a field through a nil pointer when no cached
  installation has the owner. Through \<open>CreateInstallationToken\<close> that does not happen:
  whatever the cache, the names and the remote side, the call does not end in that panic.
  \<open>getRepositoryID\<close> is reached only after \<open>getInstallationID\<close>, or the
  \<open>getRepositoryID\<close> before it, found an installation of the same owner, and a
  \<open>getRepositoryID\<close> that succeeds leaves the list of installations as it found it (a
  refresh of that list inside it leaves installations without repositories, so the name is
  not found and the call of \<open>CreateInstallationToken\<close> ends there).\<close>

theorem no_nil_dereference:
  "(CreateInstallationToken d n E owner repos permissions s = Some (r, s') \<longrightarrow>
      r \<noteq> Inl NilDereference)
   \<and> (wellFormed u \<longrightarrow> getRepositoryID d1 n1 E1 owner1 repo u = Some (Inr x, u') \<longrightarrow>
      installs (app u') = installs (app u) \<and> wellFormed u')
   \<and> ((\<forall>p\<in>set (installs (app t)). Owner (heap t p) \<noteq> owner') \<longrightarrow>
      updateRepositories d n E owner' t = Some (Inl NilDereference, t))"
proof -
  have a: "r \<noteq> Inl NilDereference"
    if c: "CreateInstallationToken d n E owner repos permissions s = Some (r, s')"
    using c
  proof (cases rule: CreateInstallationToken_cases)
    case (no_installation f)
    with getInstallationID_no_panic[OF no_installation(1)] show ?thesis by simp
  next
    case (no_repository x s1 f)
    with resolveRepositories_no_panic[OF no_repository(2) getInstallationID_Inr_owner[OF no_repository(1)]]
    show ?thesis by simp
  next
    case (requested x s1 ids s2)
    from requestToken_no_panic[OF requested(3)] show ?thesis .
  qed
  have b: "installs (app u') = installs (app u) \<and> wellFormed u'"
    if w: "wellFormed u" and g: "getRepositoryID d1 n1 E1 owner1 repo u = Some (Inr x, u')"
  proof -
    from getRepositoryID_run[OF g] w have "wellFormed u'"
      unfolding steps_def by blast
    with getRepositoryID_keeps_list[OF g w] show ?thesis by simp
  qed
  have c: "updateRepositories d n E owner' t = Some (Inl NilDereference, t)"
    if "\<forall>p\<in>set (installs (app t)). Owner (heap t p) \<noteq> owner'"
  proof -
    from that have "scanInstallations (heap t) (installs (app t)) owner' None = None"
      by (simp add: scanInstallations_None)
    then show ?thesis by (rule updateRepositories_nil)
  qed
  show ?thesis
    apply (intro conjI)
      apply (intro impI, erule a)
     apply (intro impI, erule (1) b)
    apply (intro impI, erule c)
    done
qed

theorem no_nil_dereference_witness:
  "map_option fst (CreateInstallationToken (Suc 0) (Suc 0) scenarioEnv ''acme'' [''infra'', ''ghost'']
       (Some [(''metadata'', ''read'')]) newState)
     = Some (Inl (Raised (ErrInstallationNotFound ''acme/ghost'')))
   \<and> wellFormed reposExpiredState
   \<and> (\<exists>u'. getRepositoryID (Suc 0) (Suc 0) scenarioEnv ''acme'' ''infra'' reposExpiredState
          = Some (Inr 100, u')
        \<and> installs (app u') = installs (app reposExpiredState))
   \<and> installs (app newState) = []
   \<and> updateRepositories (Suc 0) (Suc 0) scenarioEnv ''acme'' newState
       = Some (Inl NilDereference, newState)"
proof -
  obtain r s' where c: "CreateInstallationToken (Suc 0) (Suc 0) scenarioEnv ''acme''
      [''infra'', ''ghost''] (Some [(''metadata'', ''read'')]) newState = Some (r, s')"
    and r: "r = Inl (Raised (ErrInstallationNotFound ''acme/ghost''))"
    by (simp add: run_defs scenario_defs)
  have w: "wellFormed reposExpiredState"
    by (simp add: wellFormed_def reposExpiredState_def)
  obtain u' where g: "getRepositoryID (Suc 0) (Suc 0) scenarioEnv ''acme'' ''infra'' reposExpiredState
          = Some (Inr 100, u')"
    by (simp add: run_defs scenario_defs reposExpiredState_def)
  have e: "\<forall>p\<in>set (installs (app newState)). Owner (heap newState p) \<noteq> ''acme''"
    by (simp add: newState_def)
  from no_nil_dereference[where d = "Suc 0" and n = "Suc 0" and E = scenarioEnv
      and owner = "''acme''" and repos = "[''infra'', ''ghost'']"
      and permissions = "Some [(''metadata'', ''read'')]" and s = newState and r = r and s' = s'
      and u = reposExpiredState and ?d1.0 = "Suc 0" and ?n1.0 = "Suc 0" and ?E1.0 = scenarioEnv
      and ?owner1.0 = "''acme''" and repo = "''infra''" and x = 100 and u' = u'
      and t = newState and owner' = "''acme''"] c r w g e
  have "installs (app u') = installs (app reposExpiredState)"
    "updateRepositories (Suc 0) (Suc 0) scenarioEnv ''acme'' newState
       = Some (Inl NilDereference, newState)"
    by blast+
  with c r w g show ?thesis by (auto simp: newState_def)
qed

end
